theory Spec2Isabelle
  imports Complex_Main "HOL-Library.AList" "HOL-Library.Sublist" "HOL-Library.Log_Nat"
begin

section \<open>Python values, exceptions and the object store\<close>

text \<open>
  \<open>bot.py\<close> works on decoded JSON: numbers, strings, lists and dicts. The filter
  writes two keys into the dicts it accepts, so a dict is an object in a store and a
  value refers to it by address (\<open>PRef\<close>); everything else is immutable and is
  a plain value. A dict is an association list in insertion order; a dict built by the
  JSON decoder or by a dict display has each key once.

  A Python \<open>float\<close> is a binary64 number: \<open>Finite r\<close> carries its exact rational
  value, and arithmetic rounds the exact result to the nearest binary64 number, ties to
  even (\<open>fl\<close>). The sign of zero is not modelled: no comparison of the program and no
  statement below depends on it.
\<close>

datatype pyfloat = Finite rat | PosInf | NegInf | NaN

datatype pyval =
    PNone
  | PBool bool
  | PInt int
  | PFloat pyfloat
  | PStr string
  | PList "pyval list"
  | PRef nat

type_synonym pydict = "(string \<times> pyval) list"

record heap =
  cells :: "nat \<Rightarrow> pydict"
  next_free :: nat

datatype error =
    KeyError
  | TypeError
  | ValueError
  | OverflowError
  | ZeroDivisionError
  | AttributeError
  | RequestException

text \<open>Sequencing of statements that may raise: the first exception ends the block.\<close>

definition and_then :: "error + 'a \<Rightarrow> ('a \<Rightarrow> error + 'b) \<Rightarrow> error + 'b" where
  "and_then m f = (case m of Inl e \<Rightarrow> Inl e | Inr x \<Rightarrow> f x)"

text \<open>\<open>obj[key]\<close> with a string key: only a dict accepts it.\<close>

definition getitem :: "heap \<Rightarrow> pyval \<Rightarrow> string \<Rightarrow> error + pyval" where
  "getitem h obj key =
     (case obj of
        PRef a \<Rightarrow> (case map_of (cells h a) key of None \<Rightarrow> Inl KeyError | Some v \<Rightarrow> Inr v)
      | _ \<Rightarrow> Inl TypeError)"

text \<open>\<open>obj.get(key, default)\<close>: only a dict has the method.\<close>

definition dict_get :: "heap \<Rightarrow> pyval \<Rightarrow> string \<Rightarrow> pyval \<Rightarrow> error + pyval" where
  "dict_get h obj key dflt =
     (case obj of
        PRef a \<Rightarrow> Inr (case map_of (cells h a) key of None \<Rightarrow> dflt | Some v \<Rightarrow> v)
      | _ \<Rightarrow> Inl AttributeError)"

text \<open>\<open>obj[key] = v\<close>: an existing key keeps its place, a new key goes last.\<close>

definition setitem :: "heap \<Rightarrow> pyval \<Rightarrow> string \<Rightarrow> pyval \<Rightarrow> error + heap" where
  "setitem h obj key v =
     (case obj of
        PRef a \<Rightarrow> Inr (h\<lparr>cells := (cells h)(a := AList.update key v (cells h a))\<rparr>)
      | _ \<Rightarrow> Inl TypeError)"

text \<open>\<open>for x in obj\<close>: a list gives its elements, a string its characters, a dict its
  keys; nothing else in this value space is iterable.\<close>

definition py_iter :: "heap \<Rightarrow> pyval \<Rightarrow> error + pyval list" where
  "py_iter h obj =
     (case obj of
        PList xs \<Rightarrow> Inr xs
      | PStr s \<Rightarrow> Inr (map (\<lambda>c. PStr [c]) s)
      | PRef a \<Rightarrow> Inr (map (\<lambda>kv. PStr (fst kv)) (cells h a))
      | _ \<Rightarrow> Inl TypeError)"

section \<open>Binary64 arithmetic\<close>

definition round_half_even :: "rat \<Rightarrow> int" where
  "round_half_even x =
     (let f = \<lfloor>x\<rfloor>; d = x - of_int f
      in if d < 1 / 2 then f else if 1 / 2 < d then f + 1 else if even f then f else f + 1)"

definition pow2 :: "int \<Rightarrow> rat" where
  "pow2 e = (if 0 \<le> e then 2 ^ nat e else 1 / 2 ^ nat (- e))"

text \<open>The binary exponent of a positive rational: \<open>pow2 (ilog2 x) \<le> x < pow2 (ilog2 x + 1)\<close>
  (\<open>bitlen n\<close> is the number of binary digits of \<open>n\<close>).\<close>

definition ilog2 :: "rat \<Rightarrow> int" where
  "ilog2 x =
     (if 1 \<le> x then bitlen \<lfloor>x\<rfloor> - 1 else - bitlen (\<lceil>1 / x\<rceil> - 1))"

text \<open>Rounding of a magnitude to 53 significant bits, with the exponent held at
  \<open>-1022\<close> in the subnormal range.\<close>

definition round_mag :: "rat \<Rightarrow> rat" where
  "round_mag y =
     (if y = 0 then 0
      else let q = pow2 (max (ilog2 y) (- 1022) - 52)
           in of_int (round_half_even (y / q)) * q)"

definition fl :: "rat \<Rightarrow> pyfloat" where
  "fl x =
     (let r = round_mag \<bar>x\<bar>
      in if 2 ^ 1024 \<le> r then (if 0 < x then PosInf else NegInf) else Finite (sgn x * r))"

text \<open>\<open>a <= b\<close> and \<open>a < b\<close> on floats: every comparison with a NaN is false.\<close>

fun fle :: "pyfloat \<Rightarrow> pyfloat \<Rightarrow> bool" where
  "fle NaN b = False"
| "fle a NaN = False"
| "fle NegInf b = True"
| "fle a PosInf = True"
| "fle (Finite a) (Finite b) = (a \<le> b)"
| "fle a b = False"

definition flt :: "pyfloat \<Rightarrow> pyfloat \<Rightarrow> bool" where
  "flt a b = (fle a b \<and> \<not> fle b a)"

text \<open>\<open>a / b\<close> on floats.\<close>

fun truediv :: "pyfloat \<Rightarrow> pyfloat \<Rightarrow> error + pyfloat" where
  "truediv a (Finite b) =
     (if b = 0 then Inl ZeroDivisionError
      else Inr (case a of
                  Finite x \<Rightarrow> fl (x / b)
                | PosInf \<Rightarrow> if 0 < b then PosInf else NegInf
                | NegInf \<Rightarrow> if 0 < b then NegInf else PosInf
                | NaN \<Rightarrow> NaN))"
| "truediv a NaN = Inr NaN"
| "truediv NaN b = Inr NaN"
| "truediv (Finite x) b = Inr (Finite 0)"
| "truediv a b = Inr NaN"


text \<open>\<open>round(x, 2)\<close> on a float: the exact value is rounded to two decimals, ties to
  even, and the decimal is read back as a float; infinities and NaN round to
  themselves.\<close>

fun round2 :: "pyfloat \<Rightarrow> pyfloat" where
  "round2 (Finite r) = fl (of_int (round_half_even (r * 100)) / 100)"
| "round2 x = x"

text \<open>\<open>float(n)\<close> for an int raises OverflowError where the rounded value is out of
  range.\<close>

definition float_of_int :: "int \<Rightarrow> error + pyfloat" where
  "float_of_int n = (case fl (of_int n) of Finite r \<Rightarrow> Inr (Finite r) | _ \<Rightarrow> Inl OverflowError)"

text \<open>
  \<open>float(v)\<close>. The conversion of a string is the library's: it is the parameter
  \<open>fs\<close>, which gives \<open>None\<close> where \<open>float\<close> raises ValueError.
\<close>

type_synonym float_of_str = "string \<Rightarrow> pyfloat option"

definition py_float :: "float_of_str \<Rightarrow> pyval \<Rightarrow> error + pyfloat" where
  "py_float fs v =
     (case v of
        PFloat f \<Rightarrow> Inr f
      | PInt n \<Rightarrow> float_of_int n
      | PBool b \<Rightarrow> Inr (Finite (if b then 1 else 0))
      | PStr s \<Rightarrow> (case fs s of None \<Rightarrow> Inl ValueError | Some f \<Rightarrow> Inr f)
      | _ \<Rightarrow> Inl TypeError)"

text \<open>A number that is an int or a float, as \<open>vol_ratio\<close> is. A comparison of an int
  with a float compares the exact values.\<close>

datatype num = IntNum int | FloatNum pyfloat

fun exact :: "num \<Rightarrow> pyfloat" where
  "exact (IntNum n) = Finite (of_int n)"
| "exact (FloatNum f) = f"

definition num_ge :: "num \<Rightarrow> num \<Rightarrow> bool" where
  "num_ge a b = fle (exact b) (exact a)"

definition num_gt :: "num \<Rightarrow> num \<Rightarrow> bool" where
  "num_gt a b = flt (exact b) (exact a)"

text \<open>\<open>round(x, 2)\<close>: an int is returned as it is.\<close>

fun py_round2 :: "num \<Rightarrow> pyval" where
  "py_round2 (IntNum n) = PInt n"
| "py_round2 (FloatNum f) = PFloat (round2 f)"

section \<open>Dates\<close>

record datetime =
  year :: int
  month :: int
  day :: int
  hour :: int
  minute :: int
  second :: int
  microsecond :: int

definition is_leap :: "int \<Rightarrow> bool" where
  "is_leap y = (y mod 4 = 0 \<and> (y mod 100 \<noteq> 0 \<or> y mod 400 = 0))"

definition days_in_month :: "int \<Rightarrow> int \<Rightarrow> int" where
  "days_in_month y m =
     (if m = 2 then (if is_leap y then 29 else 28)
      else if m = 4 \<or> m = 6 \<or> m = 9 \<or> m = 11 then 30 else 31)"

definition days_before_year :: "int \<Rightarrow> int" where
  "days_before_year y = (y - 1) * 365 + (y - 1) div 4 - (y - 1) div 100 + (y - 1) div 400"

definition days_before_month :: "int \<Rightarrow> int \<Rightarrow> int" where
  "days_before_month y m =
     [0, 31, 59, 90, 120, 151, 181, 212, 243, 273, 304, 334] ! nat (m - 1)
       + (if 2 < m \<and> is_leap y then 1 else 0)"

definition toordinal :: "datetime \<Rightarrow> int" where
  "toordinal d = days_before_year (year d) + days_before_month (year d) (month d) + day d"

text \<open>\<open>(a - b).days\<close>: the difference in microseconds, floored to whole days.\<close>

definition day_micros :: int where
  "day_micros = 86400000000"

definition time_micros :: "datetime \<Rightarrow> int" where
  "time_micros d = ((hour d * 60 + minute d) * 60 + second d) * 1000000 + microsecond d"

definition sub_days :: "datetime \<Rightarrow> datetime \<Rightarrow> int" where
  "sub_days a b =
     ((toordinal a - toordinal b) * day_micros + (time_micros a - time_micros b)) div day_micros"

text \<open>
  \<open>datetime.strptime(s, "%Y-%m-%d")\<close>. The format compiles to the pattern
  \<open>(\d\d\d\d)-(1[0-2]|0[1-9]|[1-9])-(3[0-1]|[1-2]\d|0[1-9]|[1-9]| [1-9])\<close>, which has
  to match the whole string; the date then has to exist (year at least 1, day within
  the month). Only ASCII digits are modelled.
\<close>

definition is_digit :: "char \<Rightarrow> bool" where
  "is_digit c = (c \<in> set ''0123456789'')"

definition digit_val :: "char \<Rightarrow> int" where
  "digit_val c = int (of_char c) - 48"

definition parse_month :: "string \<Rightarrow> int option" where
  "parse_month s =
     (case s of
        [a] \<Rightarrow> if a \<in> set ''123456789'' then Some (digit_val a) else None
      | [a, b] \<Rightarrow>
          if a = CHR ''1'' \<and> b \<in> set ''012'' then Some (10 + digit_val b)
          else if a = CHR ''0'' \<and> b \<in> set ''123456789'' then Some (digit_val b)
          else None
      | _ \<Rightarrow> None)"

definition parse_day :: "string \<Rightarrow> int option" where
  "parse_day s =
     (case s of
        [a] \<Rightarrow> if a \<in> set ''123456789'' then Some (digit_val a) else None
      | [a, b] \<Rightarrow>
          if a = CHR ''3'' \<and> b \<in> set ''01'' then Some (30 + digit_val b)
          else if a \<in> set ''12'' \<and> is_digit b then Some (10 * digit_val a + digit_val b)
          else if (a = CHR ''0'' \<or> a = CHR '' '') \<and> b \<in> set ''123456789''
          then Some (digit_val b)
          else None
      | _ \<Rightarrow> None)"

definition split_dash :: "string \<Rightarrow> (string \<times> string) option" where
  "split_dash s =
     (case dropWhile (\<lambda>c. c \<noteq> CHR ''-'') s of
        [] \<Rightarrow> None
      | c # d \<Rightarrow> Some (takeWhile (\<lambda>c. c \<noteq> CHR ''-'') s, d))"

text \<open>\<open>datetime(y, m, d)\<close>: midnight of the day.\<close>

definition midnight :: "int \<Rightarrow> int \<Rightarrow> int \<Rightarrow> datetime" where
  "midnight y m d =
     \<lparr>year = y, month = m, day = d, hour = 0, minute = 0, second = 0, microsecond = 0\<rparr>"

definition make_date :: "int \<Rightarrow> int \<Rightarrow> int \<Rightarrow> error + datetime" where
  "make_date y m d =
     (if 1 \<le> y \<and> d \<le> days_in_month y m then Inr (midnight y m d) else Inl ValueError)"

definition strptime :: "pyval \<Rightarrow> error + datetime" where
  "strptime v =
     (case v of
        PStr s \<Rightarrow>
          (case s of
             y1 # y2 # y3 # y4 # c # rest \<Rightarrow>
               if is_digit y1 \<and> is_digit y2 \<and> is_digit y3 \<and> is_digit y4 \<and> c = CHR ''-''
               then (case split_dash rest of
                       None \<Rightarrow> Inl ValueError
                     | Some (ms, ds) \<Rightarrow>
                         (case (parse_month ms, parse_day ds) of
                            (Some m, Some d) \<Rightarrow>
                              make_date
                                (1000 * digit_val y1 + 100 * digit_val y2
                                   + 10 * digit_val y3 + digit_val y4) m d
                          | _ \<Rightarrow> Inl ValueError))
               else Inl ValueError
           | _ \<Rightarrow> Inl ValueError)
      | _ \<Rightarrow> Inl TypeError)"

section \<open>The filter\<close>

definition MIN_DAYS_TO_EXPIRY :: int where
  "MIN_DAYS_TO_EXPIRY = 30"

definition MIN_AVERAGE_PRICE :: num where
  "MIN_AVERAGE_PRICE = IntNum 5"

definition MIN_PREMIUM :: num where
  "MIN_PREMIUM = IntNum 100000"

definition VOLUME_MULTIPLIER :: num where
  "VOLUME_MULTIPLIER = FloatNum (Finite (3 / 2))"

text \<open>
  What one iteration of \<open>filter_alerts\<close> computes before it tests the alert:
  \<open>days_to_expiry\<close>, \<open>avg_price\<close>, \<open>premium\<close> and \<open>vol_ratio\<close>, in the order of
  the source, so that the first statement that raises decides the exception.
  \<open>now\<close> is what \<open>datetime.now()\<close> returns.
\<close>

definition read_alert ::
  "float_of_str \<Rightarrow> datetime \<Rightarrow> heap \<Rightarrow> pyval \<Rightarrow> error + (int \<times> pyfloat \<times> pyfloat \<times> num)" where
  "read_alert fs now h alert =
     and_then (getitem h alert ''expiration'') (\<lambda>e.
     and_then (strptime e) (\<lambda>expiry.
     let days_to_expiry = sub_days expiry now in
     and_then (getitem h alert ''average_price'') (\<lambda>ap.
     and_then (py_float fs ap) (\<lambda>avg_price.
     and_then (getitem h alert ''premium'') (\<lambda>pr.
     and_then (py_float fs pr) (\<lambda>premium.
     and_then (dict_get h alert ''volume'' (PInt 0)) (\<lambda>vo.
     and_then (py_float fs vo) (\<lambda>volume.
     and_then (dict_get h alert ''open_interest'' (PInt 1)) (\<lambda>oi.
     and_then (py_float fs oi) (\<lambda>open_interest.
     and_then (if num_gt (FloatNum open_interest) (IntNum 0)
               then and_then (truediv volume open_interest) (\<lambda>q. Inr (FloatNum q))
               else Inr (IntNum 0)) (\<lambda>vol_ratio.
     Inr (days_to_expiry, avg_price, premium, vol_ratio))))))))))))"

text \<open>The test of the \<open>if\<close> statement.\<close>

definition passes :: "int \<times> pyfloat \<times> pyfloat \<times> num \<Rightarrow> bool" where
  "passes r =
     (case r of (days_to_expiry, avg_price, premium, vol_ratio) \<Rightarrow>
        MIN_DAYS_TO_EXPIRY \<le> days_to_expiry
        \<and> num_ge (FloatNum avg_price) MIN_AVERAGE_PRICE
        \<and> num_ge (FloatNum premium) MIN_PREMIUM
        \<and> num_ge vol_ratio VOLUME_MULTIPLIER)"

text \<open>The body of the \<open>try\<close> block: \<open>Inr (Some h')\<close> where the alert is annotated
  (and is then appended), \<open>Inr None\<close> where the test fails.\<close>

definition try_alert ::
  "float_of_str \<Rightarrow> datetime \<Rightarrow> heap \<Rightarrow> pyval \<Rightarrow> error + heap option" where
  "try_alert fs now h alert =
     and_then (read_alert fs now h alert) (\<lambda>r.
     if passes r
     then and_then (setitem h alert ''days_to_expiry'' (PInt (fst r))) (\<lambda>h1.
          and_then (setitem h1 alert ''volume_ratio'' (py_round2 (snd (snd (snd r))))) (\<lambda>h2.
          Inr (Some h2)))
     else Inr None)"

text \<open>
  The \<open>for\<close> loop. \<open>except Exception: continue\<close> turns every exception of the
  body into the next iteration. The body reads the clock itself, once in every iteration
  that gets as far: \<open>clock i\<close> is what \<open>datetime.now()\<close> returns in iteration
  \<open>i\<close>.
\<close>

type_synonym clock = "nat \<Rightarrow> datetime"

fun filter_loop ::
  "float_of_str \<Rightarrow> clock \<Rightarrow> nat \<Rightarrow> heap \<Rightarrow> pyval list \<Rightarrow> pyval list
     \<Rightarrow> pyval list \<times> heap" where
  "filter_loop fs clock i h [] valid_alerts = (valid_alerts, h)"
| "filter_loop fs clock i h (alert # rest) valid_alerts =
     (case try_alert fs (clock i) h alert of
        Inr (Some h') \<Rightarrow> filter_loop fs clock (Suc i) h' rest (valid_alerts @ [alert])
      | Inr None \<Rightarrow> filter_loop fs clock (Suc i) h rest valid_alerts
      | Inl e \<Rightarrow> filter_loop fs clock (Suc i) h rest valid_alerts)"

text \<open>\<open>filter_alerts(alerts)\<close>: the \<open>for\<close> statement itself is outside the
  \<open>try\<close>, so an argument that is not iterable raises.\<close>

definition filter_alerts ::
  "float_of_str \<Rightarrow> clock \<Rightarrow> heap \<Rightarrow> pyval \<Rightarrow> error + (pyval list \<times> heap)" where
  "filter_alerts fs clock h alerts =
     and_then (py_iter h alerts) (\<lambda>xs. Inr (filter_loop fs clock 0 h xs []))"

text \<open>A clock that stands still during the call: the fixed current time of the
  statements about the filter.\<close>

definition fixed :: "datetime \<Rightarrow> clock" where
  "fixed now = (\<lambda>i. now)"

section \<open>Fetching\<close>

text \<open>
  What \<open>requests.get\<close> gives \<open>fetch_alerts\<close>: it raises, or it returns a response
  with a status code whose \<open>json()\<close> raises or returns the decoded body (the dicts of
  the body are in the store).
\<close>

datatype response = Response (status_code: int) (json: "error + pyval")

text \<open>A dict display allocates a new object.\<close>

definition new_dict :: "pydict \<Rightarrow> heap \<Rightarrow> nat \<times> heap" where
  "new_dict d h =
     (next_free h, h\<lparr>cells := (cells h)(next_free h := d), next_free := next_free h + 1\<rparr>)"

definition TSLA :: pydict where
  "TSLA =
     [(''ticker'', PStr ''TSLA''), (''side'', PStr ''CALL''), (''strike'', PInt 250),
      (''expiration'', PStr ''2025-12-20''), (''average_price'', PFloat (fl (512 / 100))),
      (''premium'', PInt 210000), (''volume'', PInt 500), (''open_interest'', PInt 200)]"

definition NVDA :: pydict where
  "NVDA =
     [(''ticker'', PStr ''NVDA''), (''side'', PStr ''PUT''), (''strike'', PInt 400),
      (''expiration'', PStr ''2025-11-15''), (''average_price'', PFloat (fl (48 / 10))),
      (''premium'', PInt 150000), (''volume'', PInt 300), (''open_interest'', PInt 150)]"

definition AAPL :: pydict where
  "AAPL =
     [(''ticker'', PStr ''AAPL''), (''side'', PStr ''CALL''), (''strike'', PInt 200),
      (''expiration'', PStr ''2025-10-25''), (''average_price'', PFloat (fl (21 / 10))),
      (''premium'', PInt 50000), (''volume'', PInt 100), (''open_interest'', PInt 200)]"

text \<open>The fallback: a new list of three new dicts at every call.\<close>

definition dummy_alerts :: "heap \<Rightarrow> pyval \<times> heap" where
  "dummy_alerts h =
     (let (a1, h1) = new_dict TSLA h;
          (a2, h2) = new_dict NVDA h1;
          (a3, h3) = new_dict AAPL h2
      in (PList [PRef a1, PRef a2, PRef a3], h3))"

definition is_list :: "pyval \<Rightarrow> bool" where
  "is_list v = (case v of PList xs \<Rightarrow> True | _ \<Rightarrow> False)"

definition is_dict :: "pyval \<Rightarrow> bool" where
  "is_dict v = (case v of PRef a \<Rightarrow> True | _ \<Rightarrow> False)"

text \<open>\<open>key in d\<close> for a dict \<open>d\<close>.\<close>

definition contains :: "heap \<Rightarrow> pyval \<Rightarrow> string \<Rightarrow> bool" where
  "contains h d key = (case d of PRef a \<Rightarrow> map_of (cells h a) key \<noteq> None | _ \<Rightarrow> False)"

text \<open>The \<open>try\<close> block of \<open>fetch_alerts\<close>: \<open>Inr (Some v)\<close> where it returns \<open>v\<close>,
  \<open>Inr None\<close> where it falls through, \<open>Inl e\<close> where it raises.\<close>

definition fetch_try :: "error + response \<Rightarrow> heap \<Rightarrow> error + pyval option" where
  "fetch_try get h =
     and_then get (\<lambda>response.
     if status_code response = 200
     then and_then (json response) (\<lambda>data.
          if is_list data then Inr (Some data)
          else if is_dict data \<and> contains h data ''chains''
          then and_then (getitem h data ''chains'') (\<lambda>v. Inr (Some v))
          else Inr None)
     else Inr None)"

text \<open>\<open>fetch_alerts()\<close>: \<open>except Exception: pass\<close>, then the fallback.\<close>

definition fetch_alerts :: "error + response \<Rightarrow> heap \<Rightarrow> pyval \<times> heap" where
  "fetch_alerts get h =
     (case fetch_try get h of
        Inr (Some v) \<Rightarrow> (v, h)
      | Inr None \<Rightarrow> dummy_alerts h
      | Inl e \<Rightarrow> dummy_alerts h)"

section \<open>The simulator\<close>




section \<open>Notions used in the statements\<close>

text \<open>Two stores with the same objects up to the two keys the filter writes.\<close>

definition same_inputs :: "heap \<Rightarrow> heap \<Rightarrow> bool" where
  "same_inputs h h' =
     (next_free h' = next_free h \<and>
      (\<forall>a k. k \<noteq> ''days_to_expiry'' \<and> k \<noteq> ''volume_ratio''
         \<longrightarrow> map_of (cells h' a) k = map_of (cells h a) k))"

text \<open>The alert is read without an exception and passes the test.\<close>

definition qualifies :: "float_of_str \<Rightarrow> datetime \<Rightarrow> heap \<Rightarrow> pyval \<Rightarrow> bool" where
  "qualifies fs now h alert =
     (case read_alert fs now h alert of Inr r \<Rightarrow> passes r | Inl e \<Rightarrow> False)"

text \<open>The dict at address \<open>a\<close> after the two assignments of the filter.\<close>

definition annotated :: "float_of_str \<Rightarrow> datetime \<Rightarrow> heap \<Rightarrow> nat \<Rightarrow> pydict" where
  "annotated fs now h a =
     (case read_alert fs now h (PRef a) of
        Inr r \<Rightarrow> AList.update ''volume_ratio'' (py_round2 (snd (snd (snd r))))
                   (AList.update ''days_to_expiry'' (PInt (fst r)) (cells h a))
      | Inl e \<Rightarrow> cells h a)"

text \<open>The store after \<open>filter_alerts\<close> has run over the list \<open>xs\<close>.\<close>

definition filtered_heap :: "float_of_str \<Rightarrow> datetime \<Rightarrow> heap \<Rightarrow> pyval list \<Rightarrow> heap" where
  "filtered_heap fs now h xs =
     h\<lparr>cells := (\<lambda>a. if PRef a \<in> set xs \<and> qualifies fs now h (PRef a)
                      then annotated fs now h a else cells h a)\<rparr>"

text \<open>The store after a sequence of earlier calls of \<open>filter_alerts\<close>, each with its own
  clock and on its own argument; a call that raises leaves the store as it is.\<close>

fun earlier_calls :: "float_of_str \<Rightarrow> (clock \<times> pyval) list \<Rightarrow> heap \<Rightarrow> heap" where
  "earlier_calls fs [] h = h"
| "earlier_calls fs (c # cs) h =
     earlier_calls fs cs
       (case filter_alerts fs (fst c) h (snd c) of Inr r \<Rightarrow> snd r | Inl e \<Rightarrow> h)"

section \<open>Example data\<close>

text \<open>A string conversion that accepts nothing, a time of day on 1 September 2025, and
  the store that holds the three fallback alerts at the addresses 0, 1 and 2.\<close>

definition no_str :: float_of_str where
  "no_str = (\<lambda>s. None)"

definition example_now :: datetime where
  "example_now =
     \<lparr>year = 2025, month = 9, day = 1, hour = 12, minute = 0, second = 0, microsecond = 0\<rparr>"

definition empty_heap :: heap where
  "empty_heap = \<lparr>cells = (\<lambda>a. []), next_free = 0\<rparr>"

definition sample_heap :: heap where
  "sample_heap = snd (dummy_alerts empty_heap)"

definition sample_alerts :: "pyval list" where
  "sample_alerts = [PRef 0, PRef 1, PRef 2]"

text \<open>An alert with no open interest and one whose date does not exist, at the
  addresses 3 and 4.\<close>

definition ZERO_OI :: pydict where
  "ZERO_OI =
     [(''ticker'', PStr ''XYZ''), (''side'', PStr ''CALL''), (''strike'', PInt 10),
      (''expiration'', PStr ''2025-12-20''), (''average_price'', PInt 500),
      (''premium'', PInt 210000), (''volume'', PInt 210000), (''open_interest'', PInt 0)]"

definition BAD_DATE :: pydict where
  "BAD_DATE =
     [(''ticker'', PStr ''XYZ''), (''side'', PStr ''CALL''), (''strike'', PInt 10),
      (''expiration'', PStr ''2025-02-30''), (''average_price'', PInt 500),
      (''premium'', PInt 210000), (''volume'', PInt 500), (''open_interest'', PInt 200)]"

definition more_heap :: heap where
  "more_heap = sample_heap\<lparr>cells := (cells sample_heap)(3 := ZERO_OI, 4 := BAD_DATE),
                 next_free := 5\<rparr>"

text \<open>A store with a response object that has the key \<open>chains\<close> (address 3) and
  one that has not (address 4).\<close>

definition chains_heap :: heap where
  "chains_heap = sample_heap\<lparr>cells := (cells sample_heap)(3 := [(''chains'', PList [PRef 0])],
                       4 := [(''error'', PStr ''rate limit'')]),
                   next_free := 5\<rparr>"



section \<open>Rounding to binary64\<close>

text \<open>The overflow test of \<open>fl\<close> on integers, for evaluation; then: rounding is monotone,
  and a value at or beyond \<open>2 ^ 1024\<close> overflows.\<close>

lemma fl_code [code]:
  "fl x =
     (let r = round_mag \<bar>x\<bar>
      in if (2::int) ^ 1024 \<le> \<lfloor>r\<rfloor> then (if 0 < x then PosInf else NegInf)
         else Finite (sgn x * r))"
proof -
  have "((2::rat) ^ 1024 \<le> r) = ((2::int) ^ 1024 \<le> \<lfloor>r\<rfloor>)" for r :: rat
    by (simp add: le_floor_iff)
  then show ?thesis by (simp add: fl_def)
qed

lemma round_half_even_mono: "x \<le> y \<Longrightarrow> round_half_even x \<le> round_half_even y"
proof -
  assume xy: "x \<le> y"
  have fm: "\<lfloor>x\<rfloor> \<le> \<lfloor>y\<rfloor>" using xy by (rule floor_mono)
  show ?thesis
  proof (cases "\<lfloor>x\<rfloor> = \<lfloor>y\<rfloor>")
    case True
    then have "x - of_int \<lfloor>x\<rfloor> \<le> y - of_int \<lfloor>y\<rfloor>" using xy by simp
    then show ?thesis using True
      by (auto simp: round_half_even_def Let_def)
  next
    case False
    with fm have "\<lfloor>x\<rfloor> + 1 \<le> \<lfloor>y\<rfloor>" by simp
    moreover have "round_half_even x \<le> \<lfloor>x\<rfloor> + 1"
      by (simp add: round_half_even_def Let_def)
    moreover have "\<lfloor>y\<rfloor> \<le> round_half_even y"
      by (simp add: round_half_even_def Let_def)
    ultimately show ?thesis by linarith
  qed
qed

lemma round_half_even_of_int: "round_half_even (of_int n) = n"
  by (simp add: round_half_even_def)

lemma round_half_even_ge: "of_int n \<le> x \<Longrightarrow> n \<le> round_half_even x"
  using round_half_even_mono[of "of_int n" x] by (simp add: round_half_even_of_int)

lemma round_half_even_le: "x \<le> of_int n \<Longrightarrow> round_half_even x \<le> n"
  using round_half_even_mono[of x "of_int n"] by (simp add: round_half_even_of_int)

lemma pow2_powi: "pow2 e = 2 powi e"
  by (simp add: pow2_def power_int_def inverse_eq_divide power_one_over)

lemma pow2_pos: "0 < pow2 e"
  by (simp add: pow2_powi)

lemma pow2_mono: "a \<le> b \<Longrightarrow> pow2 a \<le> pow2 b"
  by (simp add: pow2_powi power_int_increasing)

lemma pow2_add: "pow2 (a + b) = pow2 a * pow2 b"
  by (simp add: pow2_powi power_int_add)

lemma pow2_nat: "pow2 (int n) = 2 ^ n"
  by (simp add: pow2_powi)

lemma ilog2_bounds:
  assumes "0 < x"
  shows "pow2 (ilog2 x) \<le> x" and "x < pow2 (ilog2 x + 1)"
proof -
  show "pow2 (ilog2 x) \<le> x"
  proof (cases "1 \<le> x")
    case True
    then have n: "0 < \<lfloor>x\<rfloor>" by simp
    from bitlen_bounds[OF n] have "(2::int) ^ nat (bitlen \<lfloor>x\<rfloor> - 1) \<le> \<lfloor>x\<rfloor>" by simp
    then have "of_int ((2::int) ^ nat (bitlen \<lfloor>x\<rfloor> - 1)) \<le> x" by (simp only: le_floor_iff)
    moreover have "0 \<le> bitlen \<lfloor>x\<rfloor> - 1" using n by (simp add: bitlen_alt_def)
    ultimately show ?thesis using True by (simp add: ilog2_def pow2_def)
  next
    case False
    let ?m = "\<lceil>1 / x\<rceil>"
    have ix: "1 < 1 / x" using False assms by simp
    then have m: "0 < ?m - 1" by (simp add: less_ceiling_iff)
    from bitlen_bounds[OF m] have "?m - 1 < 2 ^ nat (bitlen (?m - 1))" by simp
    then have "?m \<le> 2 ^ nat (bitlen (?m - 1))" by simp
    then have "1 / x \<le> of_int ((2::int) ^ nat (bitlen (?m - 1)))" by (simp only: ceiling_le_iff)
    then have "1 / x \<le> 2 ^ nat (bitlen (?m - 1))" by simp
    then have "1 / 2 ^ nat (bitlen (?m - 1)) \<le> x"
      using assms by (simp add: field_simps)
    moreover have "0 \<le> bitlen (?m - 1)" by (rule bitlen_nonneg)
    ultimately show ?thesis using False
      by (auto simp: ilog2_def pow2_def)
  qed
  show "x < pow2 (ilog2 x + 1)"
  proof (cases "1 \<le> x")
    case True
    then have n: "0 < \<lfloor>x\<rfloor>" by simp
    from bitlen_bounds[OF n] have "\<lfloor>x\<rfloor> < (2::int) ^ nat (bitlen \<lfloor>x\<rfloor>)" by simp
    then have "x < of_int ((2::int) ^ nat (bitlen \<lfloor>x\<rfloor>))" by (simp only: floor_less_iff)
    moreover have "0 \<le> bitlen \<lfloor>x\<rfloor>" by (rule bitlen_nonneg)
    ultimately show ?thesis using True by (simp add: ilog2_def pow2_def)
  next
    case False
    let ?m = "\<lceil>1 / x\<rceil>"
    let ?b = "bitlen (?m - 1)"
    have ix: "1 < 1 / x" using False assms by simp
    then have m: "0 < ?m - 1" by (simp add: less_ceiling_iff)
    have b1: "1 \<le> ?b" using m by (simp add: bitlen_alt_def)
    from bitlen_bounds[OF m] have "(2::int) ^ nat (?b - 1) \<le> ?m - 1" by simp
    then have "of_int ((2::int) ^ nat (?b - 1)) < 1 / x"
      by (simp only: less_ceiling_iff[symmetric])
    then have "2 ^ nat (?b - 1) < 1 / x" by simp
    then have "x < 1 / 2 ^ nat (?b - 1)" using assms by (simp add: field_simps)
    moreover have "pow2 (- ?b + 1) = 1 / 2 ^ nat (?b - 1)"
      using b1 by (auto simp: pow2_def)
    ultimately show ?thesis using False by (simp add: ilog2_def)
  qed
qed

lemma ilog2_mono:
  assumes "0 < x" "x \<le> y"
  shows "ilog2 x \<le> ilog2 y"
proof (rule ccontr)
  assume "\<not> ilog2 x \<le> ilog2 y"
  then have "ilog2 y + 1 \<le> ilog2 x" by simp
  then have "pow2 (ilog2 y + 1) \<le> pow2 (ilog2 x)" by (rule pow2_mono)
  also have "\<dots> \<le> x" using assms(1) by (rule ilog2_bounds)
  also have "\<dots> \<le> y" by fact
  also have "\<dots> < pow2 (ilog2 y + 1)" using assms by (intro ilog2_bounds) simp
  finally show False by simp
qed

lemma round_mag_nonneg: "0 \<le> y \<Longrightarrow> 0 \<le> round_mag y"
proof -
  assume y: "0 \<le> y"
  have "0 \<le> round_half_even (y / q)" if "0 < q" for q
    using round_half_even_ge[of 0 "y / q"] y that by simp
  then show ?thesis
    by (simp add: round_mag_def Let_def pow2_pos less_imp_le[OF pow2_pos])
qed

lemma round_mag_mono:
  assumes "0 \<le> x" "x \<le> y"
  shows "round_mag x \<le> round_mag y"
proof (cases "x = 0")
  case True
  then show ?thesis using assms round_mag_nonneg[of y] by (simp add: round_mag_def)
next
  case False
  then have x: "0 < x" and y: "0 < y" using assms by simp_all
  define e1 where "e1 = max (ilog2 x) (- 1022)"
  define e2 where "e2 = max (ilog2 y) (- 1022)"
  define q1 where "q1 = pow2 (e1 - 52)"
  define q2 where "q2 = pow2 (e2 - 52)"
  have q: "0 < q1" "0 < q2" by (simp_all add: q1_def q2_def pow2_pos)
  have r1: "round_mag x = of_int (round_half_even (x / q1)) * q1"
    using x by (simp add: round_mag_def Let_def q1_def e1_def)
  have r2: "round_mag y = of_int (round_half_even (y / q2)) * q2"
    using y by (simp add: round_mag_def Let_def q2_def e2_def)
  have e: "e1 \<le> e2" using ilog2_mono[OF x assms(2)] by (simp add: e1_def e2_def)
  show ?thesis
  proof (cases "e1 = e2")
    case True
    then have "q1 = q2" by (simp add: q1_def q2_def)
    moreover have "x / q2 \<le> y / q2" using assms(2) q(2) by (simp add: divide_right_mono)
    ultimately show ?thesis
      using round_half_even_mono[of "x / q2" "y / q2"] q(2) by (simp add: r1 r2)
  next
    case False
    with e have lt: "e1 + 1 \<le> e2" by simp
    then have e2: "e2 = ilog2 y" by (auto simp: e1_def e2_def)
    text \<open>\<open>x\<close> is below the next power of two, which its rounding does not pass.\<close>
    have "x < pow2 (ilog2 x + 1)" using x by (rule ilog2_bounds)
    also have "\<dots> \<le> pow2 (e1 + 1)" by (rule pow2_mono) (simp add: e1_def)
    finally have "x \<le> pow2 (e1 + 1)" by simp
    moreover have p1: "pow2 (e1 + 1) = 2 ^ 53 * q1"
    proof -
      have "e1 + 1 = 53 + (e1 - 52)" by linarith
      then have "pow2 (e1 + 1) = pow2 (53 + (e1 - 52))" by (rule arg_cong)
      also have "\<dots> = pow2 53 * pow2 (e1 - 52)" by (rule pow2_add)
      also have "pow2 53 = 2 ^ 53" using pow2_nat[of 53] by simp
      finally show ?thesis by (simp add: q1_def)
    qed
    ultimately have "x / q1 \<le> of_int (2 ^ 53)" using q(1) by (simp add: field_simps)
    then have "round_half_even (x / q1) \<le> 2 ^ 53" by (rule round_half_even_le)
    then have "of_int (round_half_even (x / q1)) \<le> (2 ^ 53 :: rat)"
      by (metis of_int_le_iff of_int_numeral of_int_power)
    then have a: "round_mag x \<le> pow2 (e1 + 1)"
      using q(1) by (simp add: r1 p1)
    text \<open>\<open>y\<close> is at least a power of two, which its rounding does not pass either.\<close>
    have "pow2 e2 \<le> y" unfolding e2 using y by (rule ilog2_bounds)
    moreover have p2: "pow2 e2 = 2 ^ 52 * q2"
    proof -
      have "e2 = 52 + (e2 - 52)" by linarith
      then have "pow2 e2 = pow2 (52 + (e2 - 52))" by (rule arg_cong)
      also have "\<dots> = pow2 52 * pow2 (e2 - 52)" by (rule pow2_add)
      also have "pow2 52 = 2 ^ 52" using pow2_nat[of 52] by simp
      finally show ?thesis by (simp add: q2_def)
    qed
    ultimately have "of_int (2 ^ 52) \<le> y / q2" using q(2) by (simp add: field_simps)
    then have "2 ^ 52 \<le> round_half_even (y / q2)" by (rule round_half_even_ge)
    then have "(2 ^ 52 :: rat) \<le> of_int (round_half_even (y / q2))"
      by (metis of_int_le_iff of_int_numeral of_int_power)
    then have b: "pow2 e2 \<le> round_mag y"
      using q(2) by (simp add: r2 p2)
    from a pow2_mono[OF lt] b show ?thesis by linarith
  qed
qed

lemma fl_not_NaN: "fl x \<noteq> NaN"
  by (simp add: fl_def Let_def)

lemma fle_PosInf: "a \<noteq> NaN \<Longrightarrow> fle a PosInf"
  by (cases a) simp_all

lemma fle_NegInf: "a \<noteq> NaN \<Longrightarrow> fle NegInf a"
  by (cases a) simp_all

lemma fle_not_flt: "fle a b \<Longrightarrow> \<not> flt b a"
  by (simp add: flt_def)


lemma fl_mono:
  assumes "x \<le> y"
  shows "fle (fl x) (fl y)"
proof -
  consider "0 \<le> x" | "y \<le> 0" | "x < 0" "0 < y" by linarith
  then show ?thesis
  proof cases
    case 1
    then have m: "round_mag \<bar>x\<bar> \<le> round_mag \<bar>y\<bar>" using assms round_mag_mono[of x y] by simp
    have n: "0 \<le> round_mag \<bar>x\<bar>" "0 \<le> round_mag \<bar>y\<bar>" by (simp_all add: round_mag_nonneg)
    have z: "x = 0 \<Longrightarrow> round_mag \<bar>x\<bar> = 0" by (simp add: round_mag_def)
    show ?thesis using 1 assms m n z
      by (cases "x = 0") (auto simp: fl_def Let_def sgn_if)
  next
    case 2
    then have m: "round_mag \<bar>y\<bar> \<le> round_mag \<bar>x\<bar>" using assms round_mag_mono[of "- y" "- x"] by simp
    have n: "0 \<le> round_mag \<bar>x\<bar>" "0 \<le> round_mag \<bar>y\<bar>" by (simp_all add: round_mag_nonneg)
    have z: "y = 0 \<Longrightarrow> round_mag \<bar>y\<bar> = 0" by (simp add: round_mag_def)
    show ?thesis using 2 assms m n z
      by (cases "y = 0") (auto simp: fl_def Let_def sgn_if)
  next
    case 3
    have n: "0 \<le> round_mag \<bar>x\<bar>" "0 \<le> round_mag \<bar>y\<bar>" by (simp_all add: round_mag_nonneg)
    show ?thesis using 3 n by (auto simp: fl_def Let_def sgn_if)
  qed
qed

lemma round2_mono:
  assumes "fle a b"
  shows "fle (round2 a) (round2 b)"
proof (cases a)
  case (Finite r)
  note a = this
  show ?thesis
  proof (cases b)
    case (Finite s)
    then have "r \<le> s" using assms a by simp
    then have "round_half_even (r * 100) \<le> round_half_even (s * 100)"
      by (intro round_half_even_mono) simp
    then have "(of_int (round_half_even (r * 100)) :: rat) / 100
        \<le> of_int (round_half_even (s * 100)) / 100" by simp
    then show ?thesis unfolding a Finite round2.simps by (rule fl_mono)
  qed (use assms a in \<open>simp_all add: fle_PosInf fl_not_NaN\<close>)
next
  case PosInf
  then show ?thesis using assms by (cases b) simp_all
next
  case NegInf
  then show ?thesis using assms by (cases b) (simp_all add: fle_NegInf fl_not_NaN)
next
  case NaN
  then show ?thesis using assms by simp
qed

lemma fl_0: "fl 0 = Finite 0"
  by (simp add: fl_def round_mag_def)





lemma float_samples:
  "fl (128 / 25) = Finite (5764607523034235 / 1125899906842624)"
  "fl (24 / 5) = Finite (5404319552844595 / 1125899906842624)"
  "fl (21 / 10) = Finite (4728779608739021 / 2251799813685248)"
  "fl (5 / 2) = Finite (5 / 2)"
  "fl 2 = Finite 2"
  "fl (1 / 2) = Finite (1 / 2)"
  "fl 210000 = Finite 210000"
  "fl 150000 = Finite 150000"
  "fl 50000 = Finite 50000"
  "fl 500 = Finite 500"
  "fl 300 = Finite 300"
  "fl 200 = Finite 200"
  "fl 150 = Finite 150"
  "fl 100 = Finite 100"
  by code_simp+

lemma float_of_int_samples:
  "float_of_int 210000 = Inr (Finite 210000)"
  "float_of_int 150000 = Inr (Finite 150000)"
  "float_of_int 50000 = Inr (Finite 50000)"
  "float_of_int 500 = Inr (Finite 500)"
  "float_of_int 300 = Inr (Finite 300)"
  "float_of_int 200 = Inr (Finite 200)"
  "float_of_int 150 = Inr (Finite 150)"
  "float_of_int 100 = Inr (Finite 100)"
  by (simp_all add: float_of_int_def float_samples)

lemma round2_samples: "round2 (Finite (5 / 2)) = Finite (5 / 2)"
  by code_simp

lemma round2_threshold: "round2 (Finite (3 / 2)) = Finite (3 / 2)"
  by code_simp



section \<open>The loop of the filter\<close>

lemma same_inputs_refl: "same_inputs h h"
  by (simp add: same_inputs_def)

lemma same_inputs_trans: "same_inputs h h1 \<Longrightarrow> same_inputs h1 h2 \<Longrightarrow> same_inputs h h2"
  by (simp add: same_inputs_def)

lemma same_inputs_sym: "same_inputs h h1 \<Longrightarrow> same_inputs h1 h"
  by (simp add: same_inputs_def)

lemma read_alert_same_inputs:
  assumes "same_inputs h h'"
  shows "read_alert fs now h' x = read_alert fs now h x"
proof (cases x)
  case (PRef a)
  have k: "map_of (cells h' a) ''expiration'' = map_of (cells h a) ''expiration''"
    "map_of (cells h' a) ''average_price'' = map_of (cells h a) ''average_price''"
    "map_of (cells h' a) ''premium'' = map_of (cells h a) ''premium''"
    "map_of (cells h' a) ''volume'' = map_of (cells h a) ''volume''"
    "map_of (cells h' a) ''open_interest'' = map_of (cells h a) ''open_interest''"
    using assms by (simp_all add: same_inputs_def)
  show ?thesis
    unfolding read_alert_def getitem_def dict_get_def PRef by (simp add: k)
qed (simp_all add: read_alert_def getitem_def and_then_def)

lemma qualifies_same_inputs:
  "same_inputs h h' \<Longrightarrow> qualifies fs now h' x = qualifies fs now h x"
  by (simp add: qualifies_def read_alert_same_inputs)

lemma read_alert_Inr_ref:
  "read_alert fs now h x = Inr r \<Longrightarrow> \<exists>a. x = PRef a"
  by (cases x) (simp_all add: read_alert_def getitem_def and_then_def)

lemma try_alert_ref:
  "try_alert fs now h (PRef a) =
     (if qualifies fs now h (PRef a)
      then Inr (Some (h\<lparr>cells := (cells h)(a := annotated fs now h a)\<rparr>))
      else case read_alert fs now h (PRef a) of Inl e \<Rightarrow> Inl e | Inr r \<Rightarrow> Inr None)"
  by (cases "read_alert fs now h (PRef a)")
    (simp_all add: try_alert_def qualifies_def and_then_def setitem_def annotated_def)

lemma try_alert_other:
  "\<forall>a. x \<noteq> PRef a \<Longrightarrow> \<exists>e. try_alert fs now h x = Inl e"
  by (cases "read_alert fs now h x")
    (auto simp: try_alert_def and_then_def dest: read_alert_Inr_ref)

lemma not_qualifies_other: "\<forall>a. x \<noteq> PRef a \<Longrightarrow> \<not> qualifies fs now h x"
  by (cases "read_alert fs now h x") (auto simp: qualifies_def dest: read_alert_Inr_ref)

lemma map_of_annotated:
  "k \<noteq> ''days_to_expiry'' \<Longrightarrow> k \<noteq> ''volume_ratio'' \<Longrightarrow>
   map_of (annotated fs now h a) k = map_of (cells h a) k"
  by (cases "read_alert fs now h (PRef a)") (simp_all add: annotated_def update_conv')

lemma same_inputs_annotate:
  "same_inputs h (h\<lparr>cells := (cells h)(a := annotated fs now h a)\<rparr>)"
  by (simp add: same_inputs_def map_of_annotated)

text \<open>One iteration: a qualifying alert is annotated and kept, any other one is
  skipped with the store as it was.\<close>

lemma filter_loop_Cons:
  "filter_loop fs clock i h (x # xs) valid =
     (if qualifies fs (clock i) h x
      then filter_loop fs clock (Suc i)
             (h\<lparr>cells := (cells h)((case x of PRef a \<Rightarrow> a | _ \<Rightarrow> 0)
                     := annotated fs (clock i) h (case x of PRef a \<Rightarrow> a | _ \<Rightarrow> 0))\<rparr>)
             xs (valid @ [x])
      else filter_loop fs clock (Suc i) h xs valid)"
proof (cases "\<exists>a. x = PRef a")
  case True
  then obtain a where x: "x = PRef a" by blast
  show ?thesis
    by (cases "read_alert fs (clock i) h (PRef a)") (simp_all add: x try_alert_ref)
next
  case False
  then have n: "\<forall>a. x \<noteq> PRef a" by blast
  obtain e where "try_alert fs (clock i) h x = Inl e" using try_alert_other[OF n] by blast
  then show ?thesis using not_qualifies_other[OF n] by simp
qed

text \<open>Whatever the clock shows, the loop writes the two keys only.\<close>

lemma filter_loop_writes:
  "filter_loop fs clock i h xs valid = (valid', h') \<Longrightarrow> same_inputs h h'"
proof (induction xs arbitrary: i h valid)
  case Nil
  then show ?case by (simp add: same_inputs_refl)
next
  case (Cons x xs)
  show ?case
  proof (cases "qualifies fs (clock i) h x")
    case True
    define b where "b = (case x of PRef a \<Rightarrow> a | _ \<Rightarrow> 0)"
    define h1 where "h1 = h\<lparr>cells := (cells h)(b := annotated fs (clock i) h b)\<rparr>"
    have s1: "same_inputs h h1" unfolding h1_def by (rule same_inputs_annotate)
    have "filter_loop fs clock (Suc i) h1 xs (valid @ [x]) = (valid', h')"
      using Cons.prems True by (simp add: filter_loop_Cons h1_def b_def del: filter_loop.simps)
    from same_inputs_trans[OF s1 Cons.IH[OF this]] show ?thesis .
  next
    case False
    then have "filter_loop fs clock (Suc i) h xs valid = (valid', h')"
      using Cons.prems by (simp add: filter_loop_Cons del: filter_loop.simps)
    from Cons.IH[OF this] show ?thesis .
  qed
qed

lemma filter_loop_same_inputs:
  "filter_loop fs (\<lambda>i. now) i h xs valid = (valid', h') \<Longrightarrow>
   same_inputs h h' \<and> valid' = valid @ filter (qualifies fs now h) xs"
proof (induction xs arbitrary: i h valid)
  case Nil
  then show ?case by (simp add: same_inputs_refl)
next
  case (Cons x xs)
  show ?case
  proof (cases "qualifies fs now h x")
    case True
    define b where "b = (case x of PRef a \<Rightarrow> a | _ \<Rightarrow> 0)"
    define h1 where "h1 = h\<lparr>cells := (cells h)(b := annotated fs now h b)\<rparr>"
    have s1: "same_inputs h h1" unfolding h1_def by (rule same_inputs_annotate)
    have "filter_loop fs (\<lambda>i. now) (Suc i) h1 xs (valid @ [x]) = (valid', h')"
      using Cons.prems True by (simp add: filter_loop_Cons h1_def b_def del: filter_loop.simps)
    from Cons.IH[OF this]
    have "same_inputs h1 h'" "valid' = (valid @ [x]) @ filter (qualifies fs now h1) xs"
      by simp_all
    moreover have "filter (qualifies fs now h1) xs = filter (qualifies fs now h) xs"
      using qualifies_same_inputs[OF s1] by (intro filter_cong) simp_all
    ultimately show ?thesis using True s1 by (auto intro: same_inputs_trans)
  next
    case False
    then have "filter_loop fs (\<lambda>i. now) (Suc i) h xs valid = (valid', h')"
      using Cons.prems by (simp add: filter_loop_Cons del: filter_loop.simps)
    from Cons.IH[OF this] show ?thesis using False by simp
  qed
qed

lemma annotated_idem:
  assumes "same_inputs h h1" "cells h1 a = annotated fs now h a"
  shows "annotated fs now h1 a = annotated fs now h a"
proof (cases "read_alert fs now h (PRef a)")
  case (Inl e)
  then show ?thesis using assms by (simp add: annotated_def read_alert_same_inputs)
next
  case (Inr r)
  have r1: "read_alert fs now h1 (PRef a) = Inr r"
    using Inr assms(1) by (simp add: read_alert_same_inputs)
  let ?d = "PInt (fst r)" and ?v = "py_round2 (snd (snd (snd r)))"
  let ?al = "AList.update ''volume_ratio'' ?v (AList.update ''days_to_expiry'' ?d (cells h a))"
  have c: "cells h1 a = ?al" using assms(2) Inr by (simp add: annotated_def)
  have "map_of ?al ''days_to_expiry'' = Some ?d" by (simp add: update_conv')
  then have 1: "AList.update ''days_to_expiry'' ?d ?al = ?al" by (rule update_triv)
  have "map_of ?al ''volume_ratio'' = Some ?v" by (simp add: update_conv')
  then have 2: "AList.update ''volume_ratio'' ?v ?al = ?al" by (rule update_triv)
  show ?thesis using r1 Inr c 1 2 by (simp add: annotated_def)
qed

lemma annotated_other:
  assumes "same_inputs h h1" "cells h1 a = cells h a"
  shows "annotated fs now h1 a = annotated fs now h a"
  using assms by (simp add: annotated_def read_alert_same_inputs split: sum.splits)

text \<open>What the loop leaves in the store when the clock stands still.\<close>

lemma filter_loop_cells:
  "filter_loop fs (\<lambda>i. now) i h xs valid = (valid', h') \<Longrightarrow>
   cells h' a =
     (if PRef a \<in> set xs \<and> qualifies fs now h (PRef a) then annotated fs now h a
      else cells h a)"
proof (induction xs arbitrary: i h valid)
  case Nil
  then show ?case by simp
next
  case (Cons x xs)
  show ?case
  proof (cases "qualifies fs now h x")
    case True
    then obtain b where x: "x = PRef b" using not_qualifies_other by blast
    define h1 where "h1 = h\<lparr>cells := (cells h)(b := annotated fs now h b)\<rparr>"
    have s1: "same_inputs h h1" unfolding h1_def by (rule same_inputs_annotate)
    have "filter_loop fs (\<lambda>i. now) (Suc i) h1 xs (valid @ [x]) = (valid', h')"
      using Cons.prems True by (simp add: filter_loop_Cons h1_def x del: filter_loop.simps)
    from Cons.IH[OF this]
    have IH: "cells h' a =
      (if PRef a \<in> set xs \<and> qualifies fs now h (PRef a) then annotated fs now h1 a
       else cells h1 a)"
      by (simp add: qualifies_same_inputs[OF s1])
    show ?thesis
    proof (cases "a = b")
      case True
      have "cells h1 a = annotated fs now h a" by (simp add: h1_def True)
      moreover from annotated_idem[OF s1 this]
      have "annotated fs now h1 a = annotated fs now h a" .
      ultimately show ?thesis using IH \<open>qualifies fs now h x\<close> True x by simp
    next
      case False
      have c: "cells h1 a = cells h a" using False by (simp add: h1_def)
      from annotated_other[OF s1 c] show ?thesis using IH c False x by simp
    qed
  next
    case False
    then have "filter_loop fs (\<lambda>i. now) (Suc i) h xs valid = (valid', h')"
      using Cons.prems by (simp add: filter_loop_Cons del: filter_loop.simps)
    from Cons.IH[OF this] show ?thesis using False by auto
  qed
qed

lemma filter_loop_frame:
  "filter_loop fs (\<lambda>i. now) i h xs valid = (valid', h') \<Longrightarrow> h' = h\<lparr>cells := cells h'\<rparr>"
proof (induction xs arbitrary: i h valid)
  case Nil
  then show ?case by simp
next
  case (Cons x xs)
  show ?case
  proof (cases "qualifies fs now h x")
    case True
    then obtain b where x: "x = PRef b" using not_qualifies_other by blast
    define h1 where "h1 = h\<lparr>cells := (cells h)(b := annotated fs now h b)\<rparr>"
    have "filter_loop fs (\<lambda>i. now) (Suc i) h1 xs (valid @ [x]) = (valid', h')"
      using Cons.prems True by (simp add: filter_loop_Cons h1_def x del: filter_loop.simps)
    from Cons.IH[OF this] have "h' = h1\<lparr>cells := cells h'\<rparr>" .
    then show ?thesis by (simp add: h1_def)
  next
    case False
    then have "filter_loop fs (\<lambda>i. now) (Suc i) h xs valid = (valid', h')"
      using Cons.prems by (simp add: filter_loop_Cons del: filter_loop.simps)
    from Cons.IH[OF this] show ?thesis .
  qed
qed

text \<open>The filter on a list, in closed form.\<close>

lemma filter_alerts_PList:
  "filter_alerts fs (fixed now) h (PList xs) =
     Inr (filter (qualifies fs now h) xs, filtered_heap fs now h xs)"
proof -
  obtain valid' h' where l: "filter_loop fs (\<lambda>i. now) 0 h xs [] = (valid', h')"
    by (cases "filter_loop fs (\<lambda>i. now) 0 h xs []")
  have v: "valid' = filter (qualifies fs now h) xs"
    using filter_loop_same_inputs[OF l] by simp
  have "cells h' = (\<lambda>a. if PRef a \<in> set xs \<and> qualifies fs now h (PRef a)
                      then annotated fs now h a else cells h a)"
    using filter_loop_cells[OF l] by (intro ext) simp
  with filter_loop_frame[OF l] have "h' = filtered_heap fs now h xs"
    by (simp add: filtered_heap_def)
  with l v show ?thesis by (simp add: filter_alerts_def py_iter_def and_then_def fixed_def)
qed

lemma same_inputs_filtered_heap: "same_inputs h (filtered_heap fs now h xs)"
  by (simp add: same_inputs_def filtered_heap_def map_of_annotated)

lemma passes_iff:
  "passes (d, a, p, r) =
     (30 \<le> d \<and> fle (Finite 5) a \<and> fle (Finite 100000) p \<and> fle (Finite (3 / 2)) (exact r))"
  by (simp add: passes_def MIN_DAYS_TO_EXPIRY_def MIN_AVERAGE_PRICE_def MIN_PREMIUM_def
      VOLUME_MULTIPLIER_def num_ge_def)

lemma qualifiesE:
  assumes "qualifies fs now h x"
  obtains a d av p r where "x = PRef a" "read_alert fs now h x = Inr (d, av, p, r)"
    "passes (d, av, p, r)"
proof -
  from assms obtain t where t: "read_alert fs now h x = Inr t" "passes t"
    by (cases "read_alert fs now h x") (simp_all add: qualifies_def)
  obtain a where "x = PRef a" using read_alert_Inr_ref[OF t(1)] by blast
  moreover obtain d av p r where "t = (d, av, p, r)" by (cases t)
  ultimately show ?thesis using t that by blast
qed

lemma getitem_annotated:
  assumes "read_alert fs now h (PRef a) = Inr (d, av, p, r)"
    "cells h' a = annotated fs now h a"
  shows "getitem h' (PRef a) ''days_to_expiry'' = Inr (PInt d)"
    "getitem h' (PRef a) ''volume_ratio'' = Inr (py_round2 r)"
  using assms by (simp_all add: getitem_def annotated_def update_conv')

lemma getitem_Inr_ref: "getitem h x k = Inr v \<Longrightarrow> \<exists>a. x = PRef a \<and> map_of (cells h a) k = Some v"
  by (cases x) (auto simp: getitem_def split: option.splits)

text \<open>The statements of one iteration, for a dict whose five entries are known.\<close>

lemma read_alert_ref:
  assumes "getitem h (PRef a) ''expiration'' = Inr e" "strptime e = Inr expiry"
    and "getitem h (PRef a) ''average_price'' = Inr ap" "py_float fs ap = Inr avg_price"
    and "getitem h (PRef a) ''premium'' = Inr pr" "py_float fs pr = Inr premium"
    and "dict_get h (PRef a) ''volume'' (PInt 0) = Inr vo" "py_float fs vo = Inr volume"
    and "dict_get h (PRef a) ''open_interest'' (PInt 1) = Inr oi"
      "py_float fs oi = Inr open_interest"
  shows "read_alert fs now h (PRef a) =
     (if num_gt (FloatNum open_interest) (IntNum 0)
      then and_then (truediv volume open_interest)
             (\<lambda>q. Inr (sub_days expiry now, avg_price, premium, FloatNum q))
      else Inr (sub_days expiry now, avg_price, premium, IntNum 0))"
  unfolding read_alert_def and_then_def Let_def
  by (simp only: assms sum.case if_distrib[of "\<lambda>x. case_sum _ _ x"] split: if_splits sum.splits) auto


lemma read_alert_ratio:
  assumes "read_alert fs now h x = Inr (d, a, p, r)"
  shows "r = IntNum 0 \<or> (\<exists>q. r = FloatNum q)"
  using assms unfolding read_alert_def and_then_def Let_def
  by (auto split: sum.splits if_splits)

lemma passes_ratio:
  assumes "read_alert fs now h x = Inr (d, a, p, r)" "passes (d, a, p, r)"
  obtains q where "r = FloatNum q" "fle (Finite (3 / 2)) q" "fle (Finite (3 / 2)) (round2 q)"
proof -
  from assms(2) have e: "fle (Finite (3 / 2)) (exact r)" by (simp add: passes_iff)
  with read_alert_ratio[OF assms(1)] obtain q where q: "r = FloatNum q" by auto
  with e have 1: "fle (Finite (3 / 2)) q" by simp
  from round2_mono[OF 1] have "fle (Finite (3 / 2)) (round2 q)"
    by (simp only: round2_threshold)
  with q 1 that show ?thesis by blast
qed

lemma read_alert_no_interest:
  assumes "getitem h alert ''open_interest'' = Inr v" "py_float fs v = Inr oi"
    and "\<not> num_gt (FloatNum oi) (IntNum 0)"
    and "read_alert fs now h alert = Inr r"
  shows "snd (snd (snd r)) = IntNum 0"
proof -
  from getitem_Inr_ref[OF assms(1)] obtain a where a: "alert = PRef a"
    and m: "map_of (cells h a) ''open_interest'' = Some v" by blast
  have d: "dict_get h alert ''open_interest'' (PInt 1) = Inr v"
    by (simp add: dict_get_def a m)
  show ?thesis
    using assms(4) unfolding read_alert_def and_then_def Let_def
    by (simp add: d assms(2,3) split: sum.splits) auto
qed

lemma not_passes_zero: "\<not> passes (d, a, p, IntNum 0)"
  by (simp add: passes_iff)

lemma not_qualifies_raises: "read_alert fs now h x = Inl e \<Longrightarrow> \<not> qualifies fs now h x"
  by (simp add: qualifies_def)

lemma filtered_heap_drop:
  assumes "\<not> qualifies fs now h x"
  shows "filtered_heap fs now h (xs @ x # ys) = filtered_heap fs now h (xs @ ys)"
proof -
  have "(PRef a \<in> set (xs @ x # ys) \<and> qualifies fs now h (PRef a))
      = (PRef a \<in> set (xs @ ys) \<and> qualifies fs now h (PRef a))" for a
    using assms by auto
  then show ?thesis by (simp add: filtered_heap_def)
qed


lemma filter_alerts_same_inputs:
  "filter_alerts fs clock h v = Inr r \<Longrightarrow> same_inputs h (snd r)"
proof -
  assume a: "filter_alerts fs clock h v = Inr r"
  then obtain xs where "py_iter h v = Inr xs" and r: "r = filter_loop fs clock 0 h xs []"
    by (cases "py_iter h v") (auto simp: filter_alerts_def and_then_def)
  obtain v' h' where l: "filter_loop fs clock 0 h xs [] = (v', h')"
    by (cases "filter_loop fs clock 0 h xs []")
  from filter_loop_writes[OF l] show ?thesis by (simp add: r l)
qed

lemma same_inputs_earlier_calls: "same_inputs h (earlier_calls fs calls h)"
proof (induction calls arbitrary: h)
  case Nil
  show ?case by (simp add: same_inputs_refl)
next
  case (Cons c cs)
  let ?h1 = "case filter_alerts fs (fst c) h (snd c) of Inr r \<Rightarrow> snd r | Inl e \<Rightarrow> h"
  have "same_inputs h ?h1"
    by (cases "filter_alerts fs (fst c) h (snd c)")
      (simp_all add: same_inputs_refl filter_alerts_same_inputs)
  from same_inputs_trans[OF this Cons.IH[of ?h1]] show ?case by simp
qed

lemma map_of_annotated_same_inputs:
  assumes "same_inputs h h1" and "qualifies fs now h (PRef a)"
  shows "map_of (annotated fs now h1 a) = map_of (annotated fs now h a)"
proof
  fix k
  from assms(2) obtain t where t: "read_alert fs now h (PRef a) = Inr t"
    by (cases "read_alert fs now h (PRef a)") (simp_all add: qualifies_def)
  have r: "read_alert fs now h1 (PRef a) = Inr t"
    using assms(1) t by (simp add: read_alert_same_inputs)
  have m: "k \<noteq> ''days_to_expiry'' \<Longrightarrow> k \<noteq> ''volume_ratio'' \<Longrightarrow>
      map_of (cells h1 a) k = map_of (cells h a) k"
    using assms(1) by (simp add: same_inputs_def)
  show "map_of (annotated fs now h1 a) k = map_of (annotated fs now h a) k"
    using m by (simp add: annotated_def r t update_conv')
qed

section \<open>The example data, read\<close>

lemma strptime_samples:
  "strptime (PStr ''2025-12-20'') = Inr (midnight 2025 12 20)"
  "strptime (PStr ''2025-11-15'') = Inr (midnight 2025 11 15)"
  "strptime (PStr ''2025-10-25'') = Inr (midnight 2025 10 25)"
  by (simp_all add: strptime_def is_digit_def digit_val_def split_dash_def parse_month_def
      parse_day_def make_date_def days_in_month_def midnight_def)

lemma strptime_bad: "strptime (PStr ''2025-02-30'') = Inl ValueError"
  by (simp add: strptime_def is_digit_def digit_val_def split_dash_def parse_month_def
      parse_day_def make_date_def days_in_month_def is_leap_def)

lemma sub_days_example:
  "sub_days (midnight 2025 12 20) example_now = 109"
  "sub_days (midnight 2025 11 15) example_now = 74"
  "sub_days (midnight 2025 10 25) example_now = 53"
  by (simp_all add: sub_days_def midnight_def example_now_def toordinal_def days_before_year_def
      days_before_month_def is_leap_def time_micros_def day_micros_def)

lemma example_30:
  "30 \<le> sub_days (midnight 2025 12 20) example_now"
  "30 \<le> sub_days (midnight 2025 11 15) example_now"
  "30 \<le> sub_days (midnight 2025 10 25) example_now"
  by (simp_all add: sub_days_example)

lemma dummy_alerts_eq:
  "dummy_alerts h =
     (PList [PRef (next_free h), PRef (next_free h + 1), PRef (next_free h + 2)],
      h\<lparr>cells := (cells h)(next_free h := TSLA, next_free h + 1 := NVDA,
                              next_free h + 2 := AAPL),
        next_free := next_free h + 3\<rparr>)"
  apply (simp only: dummy_alerts_def new_dict_def Let_def split_conv heap.simps)
  apply simp
  done

lemma dummy_alerts_empty: "dummy_alerts empty_heap = (PList sample_alerts, sample_heap)"
  by (simp add: sample_heap_def sample_alerts_def dummy_alerts_eq empty_heap_def)

lemma sample_heap_cells:
  "cells sample_heap 0 = TSLA" "cells sample_heap 1 = NVDA" "cells sample_heap 2 = AAPL"
  by (simp_all add: sample_heap_def empty_heap_def dummy_alerts_eq)

lemma more_heap_cells:
  "cells more_heap 0 = TSLA" "cells more_heap 1 = NVDA" "cells more_heap 2 = AAPL"
  "cells more_heap 3 = ZERO_OI" "cells more_heap 4 = BAD_DATE"
  by (simp_all add: more_heap_def sample_heap_def empty_heap_def dummy_alerts_eq)

lemma chains_heap_cells:
  "map_of (cells chains_heap 3) ''chains'' = Some (PList [PRef 0])"
  "map_of (cells chains_heap 4) ''chains'' = None"
  by (simp_all add: chains_heap_def)


lemma read_TSLA:
  assumes c: "cells h a = TSLA"
  shows "read_alert fs now h (PRef a) =
     Inr (sub_days (midnight 2025 12 20) now, Finite (5764607523034235 / 1125899906842624),
          Finite 210000, FloatNum (Finite (5 / 2)))"
proof -
  have 1: "getitem h (PRef a) ''expiration'' = Inr (PStr ''2025-12-20'')"
    "getitem h (PRef a) ''average_price'' = Inr (PFloat (fl (128 / 25)))"
    "getitem h (PRef a) ''premium'' = Inr (PInt 210000)"
    "dict_get h (PRef a) ''volume'' (PInt 0) = Inr (PInt 500)"
    "dict_get h (PRef a) ''open_interest'' (PInt 1) = Inr (PInt 200)"
    by (simp_all add: getitem_def dict_get_def c TSLA_def)
  have 2: "py_float fs (PFloat (fl (128 / 25))) = Inr (Finite (5764607523034235 / 1125899906842624))"
    "py_float fs (PInt 210000) = Inr (Finite 210000)"
    "py_float fs (PInt 500) = Inr (Finite 500)"
    "py_float fs (PInt 200) = Inr (Finite 200)"
    by (simp_all add: py_float_def float_samples(1) float_of_int_samples)
  have 3: "num_gt (FloatNum (Finite 200)) (IntNum 0)" by (simp add: num_gt_def flt_def)
  show ?thesis
    by (simp add: read_alert_ref[OF 1(1) strptime_samples(1) 1(2) 2(1) 1(3) 2(2) 1(4) 2(3) 1(5) 2(4)]
        3 float_samples(4) and_then_def)
qed

lemma read_NVDA:
  assumes c: "cells h a = NVDA"
  shows "read_alert fs now h (PRef a) =
     Inr (sub_days (midnight 2025 11 15) now, Finite (5404319552844595 / 1125899906842624),
          Finite 150000, FloatNum (Finite 2))"
proof -
  have 1: "getitem h (PRef a) ''expiration'' = Inr (PStr ''2025-11-15'')"
    "getitem h (PRef a) ''average_price'' = Inr (PFloat (fl (24 / 5)))"
    "getitem h (PRef a) ''premium'' = Inr (PInt 150000)"
    "dict_get h (PRef a) ''volume'' (PInt 0) = Inr (PInt 300)"
    "dict_get h (PRef a) ''open_interest'' (PInt 1) = Inr (PInt 150)"
    by (simp_all add: getitem_def dict_get_def c NVDA_def)
  have 2: "py_float fs (PFloat (fl (24 / 5))) = Inr (Finite (5404319552844595 / 1125899906842624))"
    "py_float fs (PInt 150000) = Inr (Finite 150000)"
    "py_float fs (PInt 300) = Inr (Finite 300)"
    "py_float fs (PInt 150) = Inr (Finite 150)"
    by (simp_all add: py_float_def float_samples(2) float_of_int_samples)
  have 3: "num_gt (FloatNum (Finite 150)) (IntNum 0)" by (simp add: num_gt_def flt_def)
  show ?thesis
    by (simp add: read_alert_ref[OF 1(1) strptime_samples(2) 1(2) 2(1) 1(3) 2(2) 1(4) 2(3) 1(5) 2(4)]
        3 float_samples(5) and_then_def)
qed

lemma read_AAPL:
  assumes c: "cells h a = AAPL"
  shows "read_alert fs now h (PRef a) =
     Inr (sub_days (midnight 2025 10 25) now, Finite (4728779608739021 / 2251799813685248),
          Finite 50000, FloatNum (Finite (1 / 2)))"
proof -
  have 1: "getitem h (PRef a) ''expiration'' = Inr (PStr ''2025-10-25'')"
    "getitem h (PRef a) ''average_price'' = Inr (PFloat (fl (21 / 10)))"
    "getitem h (PRef a) ''premium'' = Inr (PInt 50000)"
    "dict_get h (PRef a) ''volume'' (PInt 0) = Inr (PInt 100)"
    "dict_get h (PRef a) ''open_interest'' (PInt 1) = Inr (PInt 200)"
    by (simp_all add: getitem_def dict_get_def c AAPL_def)
  have 2: "py_float fs (PFloat (fl (21 / 10))) = Inr (Finite (4728779608739021 / 2251799813685248))"
    "py_float fs (PInt 50000) = Inr (Finite 50000)"
    "py_float fs (PInt 100) = Inr (Finite 100)"
    "py_float fs (PInt 200) = Inr (Finite 200)"
    by (simp_all add: py_float_def float_samples(3) float_of_int_samples)
  have 3: "num_gt (FloatNum (Finite 200)) (IntNum 0)" by (simp add: num_gt_def flt_def)
  show ?thesis
    by (simp add: read_alert_ref[OF 1(1) strptime_samples(3) 1(2) 2(1) 1(3) 2(2) 1(4) 2(3) 1(5) 2(4)]
        3 float_samples(6) and_then_def)
qed

lemma read_ZERO_OI:
  assumes c: "cells h a = ZERO_OI"
  shows "read_alert fs now h (PRef a) =
     Inr (sub_days (midnight 2025 12 20) now, Finite 500, Finite 210000, IntNum 0)"
proof -
  have 1: "getitem h (PRef a) ''expiration'' = Inr (PStr ''2025-12-20'')"
    "getitem h (PRef a) ''average_price'' = Inr (PInt 500)"
    "getitem h (PRef a) ''premium'' = Inr (PInt 210000)"
    "dict_get h (PRef a) ''volume'' (PInt 0) = Inr (PInt 210000)"
    "dict_get h (PRef a) ''open_interest'' (PInt 1) = Inr (PInt 0)"
    by (simp_all add: getitem_def dict_get_def c ZERO_OI_def)
  have 2: "py_float fs (PInt 500) = Inr (Finite 500)"
    "py_float fs (PInt 210000) = Inr (Finite 210000)"
    by (simp_all add: py_float_def float_of_int_samples)
  have z: "py_float fs (PInt 0) = Inr (Finite 0)"
    by (simp add: py_float_def float_of_int_def fl_0)
  have 3: "\<not> num_gt (FloatNum (Finite 0)) (IntNum 0)" by (simp add: num_gt_def flt_def)
  show ?thesis
    by (simp add: read_alert_ref[OF 1(1) strptime_samples(1) 1(2) 2(1) 1(3) 2(2) 1(4) 2(2) 1(5) z]
        3)
qed

lemma read_BAD_DATE:
  "cells h a = BAD_DATE \<Longrightarrow> read_alert fs now h (PRef a) = Inl ValueError"
  by (simp add: read_alert_def getitem_def BAD_DATE_def and_then_def strptime_bad)


lemma qualifies_samples:
  assumes "30 \<le> sub_days (midnight 2025 12 20) now"
  shows "cells h a = TSLA \<Longrightarrow> qualifies fs now h (PRef a)"
    "cells h a = NVDA \<Longrightarrow> \<not> qualifies fs now h (PRef a)"
    "cells h a = AAPL \<Longrightarrow> \<not> qualifies fs now h (PRef a)"
  using assms by (simp_all add: qualifies_def read_TSLA read_NVDA read_AAPL passes_iff)


lemma filter_sample:
  "filter (qualifies no_str example_now sample_heap) sample_alerts = [PRef 0]"
  using qualifies_samples(1)[OF example_30(1) sample_heap_cells(1), of no_str]
    qualifies_samples(2)[OF example_30(1) sample_heap_cells(2), of no_str]
    qualifies_samples(3)[OF example_30(1) sample_heap_cells(3), of no_str]
  by (simp add: sample_alerts_def)

section \<open>The two draws of the simulator\<close>




section \<open>The claims\<close>

text \<open>
  C1. On every list of alerts and at every fixed time, the filter returns; what it
  returns is a subsequence of its input, in the input's order, so it is no longer than
  the input; and every element of it is read without an exception, from the store before
  and from the store after the call alike, to values that pass all four tests
  (\<open>days_to_expiry >= 30\<close>, \<open>avg_price >= 5\<close>, \<open>premium >= 100000\<close>,
  \<open>vol_ratio >= 1.5\<close>), and carries under \<open>days_to_expiry\<close> and
  \<open>volume_ratio\<close> the day count and the rounded ratio computed from its own entries;
  the rounded ratio is at least 1.5 as well.
\<close>

theorem filter_alerts_sound:
  "\<exists>valid h'. filter_alerts fs (fixed now) h (PList alerts) = Inr (valid, h')
     \<and> subseq valid alerts \<and> length valid \<le> length alerts
     \<and> (\<forall>x\<in>set valid. \<exists>days avg_price premium vol_ratio.
           read_alert fs now h x = Inr (days, avg_price, premium, FloatNum vol_ratio)
         \<and> read_alert fs now h' x = Inr (days, avg_price, premium, FloatNum vol_ratio)
         \<and> 30 \<le> days \<and> fle (Finite 5) avg_price \<and> fle (Finite 100000) premium
         \<and> fle (Finite (3 / 2)) vol_ratio
         \<and> getitem h' x ''days_to_expiry'' = Inr (PInt days)
         \<and> getitem h' x ''volume_ratio'' = Inr (PFloat (round2 vol_ratio))
         \<and> fle (Finite (3 / 2)) (round2 vol_ratio))"
proof -
  let ?valid = "filter (qualifies fs now h) alerts"
  let ?h' = "filtered_heap fs now h alerts"
  have "\<exists>days avg_price premium vol_ratio.
           read_alert fs now h x = Inr (days, avg_price, premium, FloatNum vol_ratio)
         \<and> read_alert fs now ?h' x = Inr (days, avg_price, premium, FloatNum vol_ratio)
         \<and> 30 \<le> days \<and> fle (Finite 5) avg_price \<and> fle (Finite 100000) premium
         \<and> fle (Finite (3 / 2)) vol_ratio
         \<and> getitem ?h' x ''days_to_expiry'' = Inr (PInt days)
         \<and> getitem ?h' x ''volume_ratio'' = Inr (PFloat (round2 vol_ratio))
         \<and> fle (Finite (3 / 2)) (round2 vol_ratio)"
    if "x \<in> set ?valid" for x
  proof -
    from that have q: "qualifies fs now h x" and m: "x \<in> set alerts" by simp_all
    from q obtain a d av p r where x: "x = PRef a"
      and r: "read_alert fs now h x = Inr (d, av, p, r)" and ps: "passes (d, av, p, r)"
      by (rule qualifiesE)
    from r ps obtain v where v: "r = FloatNum v" "fle (Finite (3 / 2)) v"
      "fle (Finite (3 / 2)) (round2 v)" by (rule passes_ratio)
    have c: "cells ?h' a = annotated fs now h a"
      using q m by (simp add: filtered_heap_def x)
    have "read_alert fs now ?h' x = Inr (d, av, p, r)"
      using r by (simp add: read_alert_same_inputs[OF same_inputs_filtered_heap])
    with r ps v getitem_annotated[OF r[unfolded x] c] show ?thesis
      by (simp add: passes_iff x)
  qed
  then show ?thesis
    by (intro exI[of _ ?valid] exI[of _ ?h']) (simp add: filter_alerts_PList)
qed

text \<open>At noon on 1 September 2025 the filter keeps TSLA alone of the three fallback alerts.\<close>

theorem filter_alerts_sound_witness:
  "\<exists>valid h'. filter_alerts no_str (fixed example_now) sample_heap (PList sample_alerts) = Inr (valid, h')
     \<and> valid = [PRef 0] \<and> subseq valid sample_alerts \<and> length valid \<le> length sample_alerts
     \<and> (\<forall>x\<in>set valid. \<exists>days avg_price premium vol_ratio.
           read_alert no_str example_now sample_heap x
             = Inr (days, avg_price, premium, FloatNum vol_ratio)
         \<and> read_alert no_str example_now h' x
             = Inr (days, avg_price, premium, FloatNum vol_ratio)
         \<and> 30 \<le> days \<and> fle (Finite 5) avg_price \<and> fle (Finite 100000) premium
         \<and> fle (Finite (3 / 2)) vol_ratio
         \<and> getitem h' x ''days_to_expiry'' = Inr (PInt days)
         \<and> getitem h' x ''volume_ratio'' = Inr (PFloat (round2 vol_ratio))
         \<and> fle (Finite (3 / 2)) (round2 vol_ratio))"
proof -
  from filter_alerts_sound[of no_str example_now sample_heap sample_alerts]
  obtain valid h' where
    f: "filter_alerts no_str (fixed example_now) sample_heap (PList sample_alerts) = Inr (valid, h')"
    and r: "subseq valid sample_alerts \<and> length valid \<le> length sample_alerts
     \<and> (\<forall>x\<in>set valid. \<exists>days avg_price premium vol_ratio.
           read_alert no_str example_now sample_heap x
             = Inr (days, avg_price, premium, FloatNum vol_ratio)
         \<and> read_alert no_str example_now h' x
             = Inr (days, avg_price, premium, FloatNum vol_ratio)
         \<and> 30 \<le> days \<and> fle (Finite 5) avg_price \<and> fle (Finite 100000) premium
         \<and> fle (Finite (3 / 2)) vol_ratio
         \<and> getitem h' x ''days_to_expiry'' = Inr (PInt days)
         \<and> getitem h' x ''volume_ratio'' = Inr (PFloat (round2 vol_ratio))
         \<and> fle (Finite (3 / 2)) (round2 vol_ratio))"
    by blast
  from f have "valid = [PRef 0]" by (simp add: filter_alerts_PList filter_sample)
  with f r show ?thesis by blast
qed

text \<open>
  C2. An alert whose \<open>open_interest\<close> converts to a float that is zero or negative has
  \<open>vol_ratio = 0\<close> (the int) whenever the iteration gets as far as computing it, and
  is in the output of no call of the filter, whatever its volume and its other entries
  are.
\<close>

theorem zero_open_interest_rejected:
  assumes "getitem h alert ''open_interest'' = Inr v" and "py_float fs v = Inr oi"
    and "fle oi (Finite 0)"
  shows "(\<forall>r. read_alert fs now h alert = Inr r \<longrightarrow> snd (snd (snd r)) = IntNum 0)
     \<and> (\<forall>alerts valid h'. filter_alerts fs (fixed now) h (PList alerts) = Inr (valid, h')
           \<longrightarrow> alert \<notin> set valid)"
proof -
  have n: "\<not> num_gt (FloatNum oi) (IntNum 0)"
    using assms(3) by (simp add: num_gt_def fle_not_flt)
  have 1: "snd (snd (snd r)) = IntNum 0" if "read_alert fs now h alert = Inr r" for r
    using read_alert_no_interest[OF assms(1,2) n that] .
  have "\<not> qualifies fs now h alert"
  proof
    assume "qualifies fs now h alert"
    then obtain a d av p r where "read_alert fs now h alert = Inr (d, av, p, r)"
      "passes (d, av, p, r)" by (rule qualifiesE)
    with 1 show False by (auto simp: not_passes_zero)
  qed
  then have 2: "alert \<notin> set valid"
    if "filter_alerts fs (fixed now) h (PList alerts) = Inr (valid, h')" for alerts valid h'
    using that by (auto simp: filter_alerts_PList)
  from 1 2 show ?thesis by blast
qed

text \<open>An alert with volume 210000 and open interest 0 is read to the ratio 0 and is not
  returned.\<close>

theorem zero_open_interest_rejected_witness:
  "getitem more_heap (PRef 3) ''open_interest'' = Inr (PInt 0)
   \<and> getitem more_heap (PRef 3) ''volume'' = Inr (PInt 210000)
   \<and> py_float no_str (PInt 0) = Inr (Finite 0) \<and> fle (Finite 0) (Finite 0)
   \<and> read_alert no_str example_now more_heap (PRef 3)
       = Inr (109, Finite 500, Finite 210000, IntNum 0)
   \<and> snd (snd (snd (109 :: int, Finite 500, Finite 210000, IntNum 0))) = IntNum 0
   \<and> (\<exists>valid h'.
         filter_alerts no_str (fixed example_now) more_heap (PList [PRef 3, PRef 0]) = Inr (valid, h')
         \<and> PRef 3 \<notin> set valid)"
proof -
  have 1: "getitem more_heap (PRef 3) ''open_interest'' = Inr (PInt 0)"
    "getitem more_heap (PRef 3) ''volume'' = Inr (PInt 210000)"
    by (simp_all add: getitem_def more_heap_cells ZERO_OI_def)
  have 2: "py_float no_str (PInt 0) = Inr (Finite 0)"
    by (simp add: py_float_def float_of_int_def fl_0)
  have 3: "fle (Finite 0) (Finite 0)" by simp
  have 4: "read_alert no_str example_now more_heap (PRef 3)
      = Inr (109, Finite 500, Finite 210000, IntNum 0)"
    by (simp add: read_ZERO_OI[OF more_heap_cells(4)] sub_days_example)
  obtain valid h' where
    f: "filter_alerts no_str (fixed example_now) more_heap (PList [PRef 3, PRef 0]) = Inr (valid, h')"
    by (simp add: filter_alerts_PList)
  from zero_open_interest_rejected[OF 1(1) 2 3, of example_now]
  have a: "snd (snd (snd (109 :: int, Finite 500, Finite 210000, IntNum 0))) = IntNum 0"
    and b: "PRef 3 \<notin> set valid"
    using 4 f by blast+
  from 1 2 3 4 a b f show ?thesis by blast
qed

text \<open>
  C3. A record on which the reading of the iteration raises (a date that does not parse,
  an entry that \<open>float\<close> rejects, a missing key, a value that is not a dict) is
  dropped and changes nothing else: the filter returns on the batch, the record is not in
  the output, and output and store are those of the batch without the record.
\<close>

theorem malformed_record_dropped:
  assumes "read_alert fs now h x = Inl e"
  shows "filter_alerts fs (fixed now) h (PList (xs @ x # ys)) = filter_alerts fs (fixed now) h (PList (xs @ ys))
     \<and> (\<exists>valid h'. filter_alerts fs (fixed now) h (PList (xs @ x # ys)) = Inr (valid, h')
           \<and> x \<notin> set valid)"
proof -
  have n: "\<not> qualifies fs now h x" using assms by (rule not_qualifies_raises)
  then show ?thesis
    by (simp add: filter_alerts_PList filtered_heap_drop)
qed

text \<open>The alert dated 30 February 2025 raises ValueError and leaves the batch as it is
  without it.\<close>

theorem malformed_record_dropped_witness:
  "read_alert no_str example_now more_heap (PRef 4) = Inl ValueError
   \<and> filter_alerts no_str (fixed example_now) more_heap (PList ([PRef 0] @ PRef 4 # [PRef 1]))
       = filter_alerts no_str (fixed example_now) more_heap (PList ([PRef 0] @ [PRef 1]))
   \<and> (\<exists>valid h'.
         filter_alerts no_str (fixed example_now) more_heap (PList ([PRef 0] @ PRef 4 # [PRef 1]))
           = Inr (valid, h')
         \<and> PRef 4 \<notin> set valid)"
proof -
  have 1: "read_alert no_str example_now more_heap (PRef 4) = Inl ValueError"
    by (simp add: read_BAD_DATE more_heap_cells)
  from malformed_record_dropped[OF 1, of "[PRef 0]" "[PRef 1]"] 1 show ?thesis by blast
qed

text \<open>
  C4. \<open>fetch_alerts\<close> returns a value on every outcome of the request. It returns
  the three fallback alerts, newly allocated, when the request raises, when the status is
  not 200, when the body does not decode, and when the decoded body is neither a list nor
  a dict with the key \<open>chains\<close>; it returns the decoded list as it is, or the value
  under \<open>chains\<close>, in the two remaining cases, with the store unchanged.
\<close>

theorem fetch_alerts_fallback:
  "(\<forall>e. get = Inl e \<longrightarrow> fetch_alerts get h = dummy_alerts h)
   \<and> (\<forall>st body. get = Inr (Response st body) \<and> st \<noteq> 200
          \<longrightarrow> fetch_alerts get h = dummy_alerts h)
   \<and> (\<forall>e. get = Inr (Response 200 (Inl e)) \<longrightarrow> fetch_alerts get h = dummy_alerts h)
   \<and> (\<forall>data. get = Inr (Response 200 (Inr data)) \<and> \<not> is_list data
          \<and> \<not> (is_dict data \<and> contains h data ''chains'')
          \<longrightarrow> fetch_alerts get h = dummy_alerts h)
   \<and> (\<forall>xs. get = Inr (Response 200 (Inr (PList xs)))
          \<longrightarrow> fetch_alerts get h = (PList xs, h))
   \<and> (\<forall>a v. get = Inr (Response 200 (Inr (PRef a)))
          \<and> map_of (cells h a) ''chains'' = Some v
          \<longrightarrow> fetch_alerts get h = (v, h))
   \<and> fst (dummy_alerts h)
       = PList [PRef (next_free h), PRef (next_free h + 1), PRef (next_free h + 2)]
   \<and> cells (snd (dummy_alerts h)) (next_free h) = TSLA
   \<and> cells (snd (dummy_alerts h)) (next_free h + 1) = NVDA
   \<and> cells (snd (dummy_alerts h)) (next_free h + 2) = AAPL"
proof -
  have 1: "fetch_alerts (Inl e) h = dummy_alerts h" for e
    by (simp add: fetch_alerts_def fetch_try_def and_then_def)
  have 2: "fetch_alerts (Inr (Response st body)) h = dummy_alerts h" if "st \<noteq> 200" for st body
    using that by (simp add: fetch_alerts_def fetch_try_def and_then_def)
  have 3: "fetch_alerts (Inr (Response 200 (Inl e))) h = dummy_alerts h" for e
    by (simp add: fetch_alerts_def fetch_try_def and_then_def)
  have 4: "fetch_alerts (Inr (Response 200 (Inr data))) h = dummy_alerts h"
    if "\<not> is_list data" "\<not> (is_dict data \<and> contains h data ''chains'')" for data
    using that by (auto simp: fetch_alerts_def fetch_try_def and_then_def)
  have 5: "fetch_alerts (Inr (Response 200 (Inr (PList xs)))) h = (PList xs, h)" for xs
    by (simp add: fetch_alerts_def fetch_try_def and_then_def is_list_def)
  have 6: "fetch_alerts (Inr (Response 200 (Inr (PRef a)))) h = (v, h)"
    if "map_of (cells h a) ''chains'' = Some v" for a v
    using that
    by (simp add: fetch_alerts_def fetch_try_def and_then_def is_list_def is_dict_def
        contains_def getitem_def)
  have 7: "fst (dummy_alerts h)
       = PList [PRef (next_free h), PRef (next_free h + 1), PRef (next_free h + 2)]"
    "cells (snd (dummy_alerts h)) (next_free h) = TSLA"
    "cells (snd (dummy_alerts h)) (next_free h + 1) = NVDA"
    "cells (snd (dummy_alerts h)) (next_free h + 2) = AAPL"
    by (simp_all add: dummy_alerts_eq)
  from 1 2 3 4 5 6 7 show ?thesis by blast
qed

text \<open>One outcome of each kind.\<close>

theorem fetch_alerts_fallback_witness:
  "fetch_alerts (Inl RequestException) empty_heap = (PList sample_alerts, sample_heap)
   \<and> fetch_alerts (Inr (Response 503 (Inl ValueError))) empty_heap
       = (PList sample_alerts, sample_heap)
   \<and> fetch_alerts (Inr (Response 200 (Inl ValueError))) empty_heap
       = (PList sample_alerts, sample_heap)
   \<and> fetch_alerts (Inr (Response 200 (Inr (PRef 4)))) chains_heap = dummy_alerts chains_heap
   \<and> fetch_alerts (Inr (Response 200 (Inr (PStr ''busy'')))) empty_heap
       = (PList sample_alerts, sample_heap)
   \<and> fetch_alerts (Inr (Response 200 (Inr (PList [PRef 1])))) sample_heap
       = (PList [PRef 1], sample_heap)
   \<and> fetch_alerts (Inr (Response 200 (Inr (PRef 3)))) chains_heap
       = (PList [PRef 0], chains_heap)"
proof -
  have d: "\<not> is_list (PRef 4)" "\<not> (is_dict (PRef 4) \<and> contains chains_heap (PRef 4) ''chains'')"
    "\<not> is_list (PStr ''busy'')"
    "\<not> (is_dict (PStr ''busy'') \<and> contains empty_heap (PStr ''busy'') ''chains'')"
    by (simp_all add: is_list_def is_dict_def contains_def chains_heap_cells)
  have 1: "fetch_alerts (Inl RequestException) empty_heap = dummy_alerts empty_heap"
    using fetch_alerts_fallback[of "Inl RequestException" empty_heap] by simp
  have 2: "fetch_alerts (Inr (Response 503 (Inl ValueError))) empty_heap = dummy_alerts empty_heap"
    using fetch_alerts_fallback[of "Inr (Response 503 (Inl ValueError))" empty_heap] by simp
  have 3: "fetch_alerts (Inr (Response 200 (Inl ValueError))) empty_heap = dummy_alerts empty_heap"
    using fetch_alerts_fallback[of "Inr (Response 200 (Inl ValueError))" empty_heap] by simp
  have 4: "fetch_alerts (Inr (Response 200 (Inr (PRef 4)))) chains_heap = dummy_alerts chains_heap"
    using fetch_alerts_fallback[of "Inr (Response 200 (Inr (PRef 4)))" chains_heap] d(1,2)
    by simp
  have 5: "fetch_alerts (Inr (Response 200 (Inr (PStr ''busy'')))) empty_heap
      = dummy_alerts empty_heap"
    using fetch_alerts_fallback[of "Inr (Response 200 (Inr (PStr ''busy'')))" empty_heap] d(3,4)
    by simp
  have 6: "fetch_alerts (Inr (Response 200 (Inr (PList [PRef 1])))) sample_heap
      = (PList [PRef 1], sample_heap)"
    using fetch_alerts_fallback[of "Inr (Response 200 (Inr (PList [PRef 1])))" sample_heap]
    by simp
  have 7: "fetch_alerts (Inr (Response 200 (Inr (PRef 3)))) chains_heap
      = (PList [PRef 0], chains_heap)"
    using fetch_alerts_fallback[of "Inr (Response 200 (Inr (PRef 3)))" chains_heap]
      chains_heap_cells(1)
    by simp
  from 1 2 3 4 5 6 7 show ?thesis by (simp add: dummy_alerts_empty)
qed

text \<open>
  C5, amended. On the three fallback alerts, at a time that leaves every expiration at
  least 30 days out, the filter returns TSLA alone, annotated with the ratio 2.5 and its
  day count. NVDA, whose ratio is 2.0, is rejected with AAPL: its average price, the float
  4.8, is below 5.
\<close>

theorem fallback_only_TSLA:
  assumes "30 \<le> sub_days (midnight 2025 12 20) now"
    and "30 \<le> sub_days (midnight 2025 11 15) now"
    and "30 \<le> sub_days (midnight 2025 10 25) now"
  shows "\<exists>h'. filter_alerts fs (fixed now) (snd (dummy_alerts h)) (fst (dummy_alerts h))
               = Inr ([PRef (next_free h)], h')
     \<and> getitem h' (PRef (next_free h)) ''ticker'' = Inr (PStr ''TSLA'')
     \<and> getitem h' (PRef (next_free h)) ''volume_ratio'' = Inr (PFloat (Finite (5 / 2)))
     \<and> getitem h' (PRef (next_free h)) ''days_to_expiry''
          = Inr (PInt (sub_days (midnight 2025 12 20) now))
     \<and> getitem h' (PRef (next_free h + 1)) ''ticker'' = Inr (PStr ''NVDA'')
     \<and> getitem h' (PRef (next_free h + 2)) ''ticker'' = Inr (PStr ''AAPL'')
     \<and> (\<exists>avg_price.
           read_alert fs now h' (PRef (next_free h + 1))
             = Inr (sub_days (midnight 2025 11 15) now, avg_price, Finite 150000,
                    FloatNum (Finite 2))
         \<and> \<not> fle (Finite 5) avg_price)"
proof -
  define n where "n = next_free h"
  define h1 where "h1 = snd (dummy_alerts h)"
  define h' where "h' = filtered_heap fs now h1 [PRef n, PRef (n + 1), PRef (n + 2)]"
  have d: "dummy_alerts h = (PList [PRef n, PRef (n + 1), PRef (n + 2)], h1)"
    by (simp add: h1_def n_def dummy_alerts_eq)
  have c: "cells h1 n = TSLA" "cells h1 (n + 1) = NVDA" "cells h1 (n + 2) = AAPL"
    by (simp_all add: h1_def n_def dummy_alerts_eq)
  have q: "qualifies fs now h1 (PRef n)" "\<not> qualifies fs now h1 (PRef (n + 1))"
    "\<not> qualifies fs now h1 (PRef (n + 2))"
    by (rule qualifies_samples(1)[OF assms(1) c(1)], rule qualifies_samples(2)[OF assms(1) c(2)],
        rule qualifies_samples(3)[OF assms(1) c(3)])
  have f: "filter_alerts fs (fixed now) h1 (PList [PRef n, PRef (n + 1), PRef (n + 2)]) = Inr ([PRef n], h')"
    using q by (simp add: filter_alerts_PList h'_def)
  have c': "cells h' n = annotated fs now h1 n" "cells h' (n + 1) = NVDA"
    "cells h' (n + 2) = AAPL"
    using q c by (simp_all add: filtered_heap_def h'_def)
  have 1: "getitem h' (PRef n) ''days_to_expiry'' = Inr (PInt (sub_days (midnight 2025 12 20) now))"
    "getitem h' (PRef n) ''volume_ratio'' = Inr (PFloat (Finite (5 / 2)))"
    using getitem_annotated[OF read_TSLA[OF c(1)] c'(1)] by (simp_all add: round2_samples del: round2.simps)
  have 2: "getitem h' (PRef n) ''ticker'' = Inr (PStr ''TSLA'')"
    by (simp add: getitem_def c'(1) map_of_annotated c(1) TSLA_def)
  have 3: "getitem h' (PRef (n + 1)) ''ticker'' = Inr (PStr ''NVDA'')"
    "getitem h' (PRef (n + 2)) ''ticker'' = Inr (PStr ''AAPL'')"
    using c'(2,3) by (simp_all add: getitem_def NVDA_def AAPL_def)
  have 4: "read_alert fs now h' (PRef (n + 1))
      = Inr (sub_days (midnight 2025 11 15) now, Finite (5404319552844595 / 1125899906842624),
             Finite 150000, FloatNum (Finite 2))"
    by (rule read_NVDA[OF c'(2)])
  have 5: "\<not> fle (Finite 5) (Finite (5404319552844595 / 1125899906842624))" by simp
  from f 1 2 3 4 5 show ?thesis unfolding d fst_conv snd_conv n_def[symmetric] by blast
qed

text \<open>At noon on 1 September 2025 the expirations are 109, 74 and 53 days out.\<close>

theorem fallback_only_TSLA_witness:
  "30 \<le> sub_days (midnight 2025 12 20) example_now
   \<and> 30 \<le> sub_days (midnight 2025 11 15) example_now
   \<and> 30 \<le> sub_days (midnight 2025 10 25) example_now
   \<and> (\<exists>h'. filter_alerts no_str (fixed example_now) sample_heap (PList sample_alerts)
               = Inr ([PRef 0], h')
     \<and> getitem h' (PRef 0) ''ticker'' = Inr (PStr ''TSLA'')
     \<and> getitem h' (PRef 0) ''volume_ratio'' = Inr (PFloat (Finite (5 / 2)))
     \<and> getitem h' (PRef 0) ''days_to_expiry'' = Inr (PInt 109))"
proof -
  have n: "next_free empty_heap = 0" by (simp add: empty_heap_def)
  from fallback_only_TSLA[OF example_30, of no_str empty_heap] example_30
  show ?thesis unfolding dummy_alerts_empty fst_conv snd_conv n sub_days_example by blast
qed

text \<open>At that time all three expirations are at least 30 days out and the fallback, as
  \<open>fetch_alerts\<close> returns it, is filtered to TSLA alone: NVDA, at address 1, is not
  returned.\<close>

theorem fallback_NVDA_counterexample:
  "30 \<le> sub_days (midnight 2025 12 20) example_now
   \<and> 30 \<le> sub_days (midnight 2025 11 15) example_now
   \<and> 30 \<le> sub_days (midnight 2025 10 25) example_now
   \<and> fetch_alerts (Inl RequestException) empty_heap = (PList sample_alerts, sample_heap)
   \<and> cells sample_heap 1 = NVDA
   \<and> map_sum id fst (filter_alerts no_str (fixed example_now) sample_heap (PList sample_alerts))
       = Inr [PRef 0]"
  using sample_heap_cells(2)
  by (simp add: example_30 filter_alerts_PList filter_sample
      fetch_alerts_def fetch_try_def and_then_def dummy_alerts_empty)

text \<open>
  C6. At a fixed time the result of the filter does not depend on the calls made before:
  after any sequence of earlier calls, at any times and on any arguments, the filter
  returns the same list of references as without them, and the dicts of the returned
  alerts are equal (key by key).
\<close>

theorem filter_alerts_history_independent:
  "\<exists>valid h1 h2.
     filter_alerts fs (fixed now) h (PList alerts) = Inr (valid, h1)
     \<and> filter_alerts fs (fixed now) (earlier_calls fs calls h) (PList alerts) = Inr (valid, h2)
     \<and> (\<forall>a. PRef a \<in> set valid \<longrightarrow> map_of (cells h2 a) = map_of (cells h1 a))"
proof -
  let ?hp = "earlier_calls fs calls h"
  have s: "same_inputs h ?hp" by (rule same_inputs_earlier_calls)
  have q: "qualifies fs now ?hp = qualifies fs now h"
    using qualifies_same_inputs[OF s] by (intro ext)
  have "map_of (cells (filtered_heap fs now ?hp alerts) a)
      = map_of (cells (filtered_heap fs now h alerts) a)"
    if "PRef a \<in> set (filter (qualifies fs now h) alerts)" for a
    using that by (simp add: filtered_heap_def q map_of_annotated_same_inputs[OF s])
  then show ?thesis by (simp add: filter_alerts_PList q)
qed

text \<open>Two earlier calls, the first in January 2025 with a clock that moves on from one
  iteration to the next, change nothing of what the filter returns on the fallback alerts.\<close>

theorem filter_alerts_history_independent_witness:
  "\<exists>h1 h2.
     filter_alerts no_str (fixed example_now) sample_heap (PList sample_alerts) = Inr ([PRef 0], h1)
     \<and> filter_alerts no_str (fixed example_now)
          (earlier_calls no_str
             [(\<lambda>i. midnight 2025 1 (1 + int i), PList sample_alerts),
              (fixed example_now, PList [PRef 2, PRef 0])]
             sample_heap)
          (PList sample_alerts) = Inr ([PRef 0], h2)
     \<and> map_of (cells h2 0) = map_of (cells h1 0)"
proof -
  from filter_alerts_history_independent[of no_str example_now sample_heap sample_alerts
      "[(\<lambda>i. midnight 2025 1 (1 + int i), PList sample_alerts),
              (fixed example_now, PList [PRef 2, PRef 0])]"]
  obtain valid h1 h2 where
    f: "filter_alerts no_str (fixed example_now) sample_heap (PList sample_alerts) = Inr (valid, h1)"
    and g: "filter_alerts no_str (fixed example_now)
          (earlier_calls no_str
             [(\<lambda>i. midnight 2025 1 (1 + int i), PList sample_alerts),
              (fixed example_now, PList [PRef 2, PRef 0])]
             sample_heap)
          (PList sample_alerts) = Inr (valid, h2)"
    and m: "\<forall>a. PRef a \<in> set valid \<longrightarrow> map_of (cells h2 a) = map_of (cells h1 a)"
    by blast
  from f have "valid = [PRef 0]" by (simp add: filter_alerts_PList filter_sample)
  with f g m show ?thesis by auto
qed




text \<open>
  C9. The filter writes into the objects it is given: every element of the output is a
  reference taken from the input, its dict after the call is its dict before the call
  with \<open>days_to_expiry\<close> and \<open>volume_ratio\<close> set (added last, or overwritten in
  place), so that every other key has the value it had; every object that is not in the
  output, a rejected or malformed alert among them, is exactly as it was, and no object is
  allocated.
\<close>

theorem filter_alerts_frame:
  assumes "filter_alerts fs (fixed now) h (PList alerts) = Inr (valid, h')"
  shows "subseq valid alerts
     \<and> (\<forall>x\<in>set valid. \<exists>a d v. x = PRef a
           \<and> cells h' a =
               AList.update ''volume_ratio'' v (AList.update ''days_to_expiry'' d (cells h a))
           \<and> (\<forall>k. k \<noteq> ''days_to_expiry'' \<and> k \<noteq> ''volume_ratio''
                 \<longrightarrow> map_of (cells h' a) k = map_of (cells h a) k))
     \<and> (\<forall>a. PRef a \<notin> set valid \<longrightarrow> cells h' a = cells h a)
     \<and> next_free h' = next_free h"
proof -
  from assms have v: "valid = filter (qualifies fs now h) alerts"
    and h': "h' = filtered_heap fs now h alerts"
    by (simp_all add: filter_alerts_PList)
  have 1: "subseq valid alerts" by (simp add: v)
  have 2: "\<exists>a d w. x = PRef a
           \<and> cells h' a =
               AList.update ''volume_ratio'' w (AList.update ''days_to_expiry'' d (cells h a))
           \<and> (\<forall>k. k \<noteq> ''days_to_expiry'' \<and> k \<noteq> ''volume_ratio''
                 \<longrightarrow> map_of (cells h' a) k = map_of (cells h a) k)"
    if "x \<in> set valid" for x
  proof -
    from that have q: "qualifies fs now h x" and m: "x \<in> set alerts" by (simp_all add: v)
    from q obtain a d av p r where x: "x = PRef a"
      and r: "read_alert fs now h x = Inr (d, av, p, r)"
      by (rule qualifiesE)
    have c: "cells h' a = annotated fs now h a"
      using q m by (simp add: h' filtered_heap_def x)
    then have "cells h' a = AList.update ''volume_ratio'' (py_round2 r)
        (AList.update ''days_to_expiry'' (PInt d) (cells h a))"
      using r by (simp add: annotated_def x)
    moreover have "\<forall>k. k \<noteq> ''days_to_expiry'' \<and> k \<noteq> ''volume_ratio''
                 \<longrightarrow> map_of (cells h' a) k = map_of (cells h a) k"
      by (simp add: c map_of_annotated)
    ultimately show ?thesis using x by blast
  qed
  have 3: "cells h' a = cells h a" if "PRef a \<notin> set valid" for a
    using that by (auto simp: v h' filtered_heap_def)
  have 4: "next_free h' = next_free h" by (simp add: h' filtered_heap_def)
  from 1 2 3 4 show ?thesis by blast
qed

text \<open>TSLA is annotated; NVDA and AAPL are as they were.\<close>

theorem filter_alerts_frame_witness:
  "filter_alerts no_str (fixed example_now) sample_heap (PList sample_alerts)
     = Inr ([PRef 0], filtered_heap no_str example_now sample_heap sample_alerts)
   \<and> (\<exists>d v. cells (filtered_heap no_str example_now sample_heap sample_alerts) 0 =
          AList.update ''volume_ratio'' v (AList.update ''days_to_expiry'' d TSLA))
   \<and> cells (filtered_heap no_str example_now sample_heap sample_alerts) 1 = NVDA
   \<and> cells (filtered_heap no_str example_now sample_heap sample_alerts) 2 = AAPL"
proof -
  define h' where "h' = filtered_heap no_str example_now sample_heap sample_alerts"
  have f: "filter_alerts no_str (fixed example_now) sample_heap (PList sample_alerts) = Inr ([PRef 0], h')"
    by (simp add: filter_alerts_PList filter_sample h'_def)
  from filter_alerts_frame[OF f]
  have A: "\<forall>x\<in>set [PRef 0]. \<exists>a d v. x = PRef a
           \<and> cells h' a =
               AList.update ''volume_ratio'' v
                 (AList.update ''days_to_expiry'' d (cells sample_heap a))
           \<and> (\<forall>k. k \<noteq> ''days_to_expiry'' \<and> k \<noteq> ''volume_ratio''
                 \<longrightarrow> map_of (cells h' a) k = map_of (cells sample_heap a) k)"
    and B: "\<forall>a. PRef a \<notin> set [PRef 0] \<longrightarrow> cells h' a = cells sample_heap a"
    by blast+
  from A obtain d v where "cells h' 0 =
      AList.update ''volume_ratio'' v (AList.update ''days_to_expiry'' d (cells sample_heap 0))"
    by auto
  moreover from B have "cells h' 1 = cells sample_heap 1" "cells h' 2 = cells sample_heap 2"
    by simp_all
  ultimately show ?thesis using f unfolding h'_def[symmetric] sample_heap_cells by blast
qed

text \<open>
  C10. At a fixed time the filter is idempotent: run on its own output, in the store it
  left, it returns the same list and leaves the store as it is.
\<close>

theorem filter_alerts_idempotent:
  assumes "filter_alerts fs (fixed now) h (PList alerts) = Inr (valid, h')"
  shows "filter_alerts fs (fixed now) h' (PList valid) = Inr (valid, h')"
proof -
  from assms have v: "valid = filter (qualifies fs now h) alerts"
    and h': "h' = filtered_heap fs now h alerts"
    by (simp_all add: filter_alerts_PList)
  have s: "same_inputs h h'" unfolding h' by (rule same_inputs_filtered_heap)
  have q: "qualifies fs now h' = qualifies fs now h"
    using qualifies_same_inputs[OF s] by (intro ext)
  have 1: "filter (qualifies fs now h') valid = valid" by (simp add: q v)
  have "cells (filtered_heap fs now h' valid) a = cells h' a" for a
  proof (cases "PRef a \<in> set valid")
    case True
    then have "cells h' a = annotated fs now h a"
      by (simp add: h' v filtered_heap_def)
    from annotated_idem[OF s this] this True show ?thesis
      by (simp add: filtered_heap_def q v)
  next
    case False
    then show ?thesis by (simp add: filtered_heap_def)
  qed
  then have "cells (filtered_heap fs now h' valid) = cells h'" by (intro ext)
  then have 2: "filtered_heap fs now h' valid = h'"
    by (simp add: filtered_heap_def)
  show ?thesis by (simp add: filter_alerts_PList 1 2)
qed

text \<open>The filter run again on \<open>[TSLA]\<close>.\<close>

theorem filter_alerts_idempotent_witness:
  "filter_alerts no_str (fixed example_now) sample_heap (PList sample_alerts)
     = Inr ([PRef 0], filtered_heap no_str example_now sample_heap sample_alerts)
   \<and> filter_alerts no_str (fixed example_now)
         (filtered_heap no_str example_now sample_heap sample_alerts) (PList [PRef 0])
       = Inr ([PRef 0], filtered_heap no_str example_now sample_heap sample_alerts)"
proof -
  let ?h' = "filtered_heap no_str example_now sample_heap sample_alerts"
  have f: "filter_alerts no_str (fixed example_now) sample_heap (PList sample_alerts) = Inr ([PRef 0], ?h')"
    by (simp add: filter_alerts_PList filter_sample)
  from filter_alerts_idempotent[OF f] f show ?thesis by simp
qed

end
